theory Spec2Isabelle
  imports Complex_Main "HOL-Library.Word"
begin

section \<open>Constants of the module\<close>

text \<open>
  Shallow embedding of \<^verbatim>\<open>bleak_retry_connector/__init__.py\<close> (version 1.12.3).
  Logging calls are not modelled: they read state and write none.
\<close>

definition UNREACHABLE_RSSI :: int where
  "UNREACHABLE_RSSI = - 1000"

definition RSSI_SWITCH_THRESHOLD :: int where
  "RSSI_SWITCH_THRESHOLD = 6"

definition BLEAK_DBUS_BACKOFF_TIME :: real where
  "BLEAK_DBUS_BACKOFF_TIME = 0.25"

definition MAX_TRANSIENT_ERRORS :: int where
  "MAX_TRANSIENT_ERRORS = 9"

definition MAX_CONNECT_ATTEMPTS :: int where
  "MAX_CONNECT_ATTEMPTS = 4"

definition BLEAK_TIMEOUT :: real where
  "BLEAK_TIMEOUT = 14.25"

definition BLEAK_SAFETY_TIMEOUT :: real where
  "BLEAK_SAFETY_TIMEOUT = 15.75"

definition TRANSIENT_ERRORS :: "string list" where
  "TRANSIENT_ERRORS = [''le-connection-abort-by-local'', ''br-connection-canceled'']"

definition DEVICE_MISSING_ERRORS :: "string list" where
  "DEVICE_MISSING_ERRORS = [''org.freedesktop.DBus.Error.UnknownObject'']"

definition ABORT_ERRORS :: "string list" where
  "ABORT_ERRORS = TRANSIENT_ERRORS"

definition ABORT_ADVICE :: string where
  "ABORT_ADVICE = ''Interference/range; '' @
     ''External Bluetooth adapter w/extension may help; '' @
     ''Extension cables reduce USB 3 port interference''"

definition DEVICE_MISSING_ADVICE :: string where
  "DEVICE_MISSING_ADVICE = ''The device disappeared; '' @
     ''Try restarting the scanner or moving the device closer''"

text \<open>
  The two interface names come from \<^verbatim>\<open>bleak.backends.bluezdbus.defs\<close>, a module of the
  bleak library that the source imports.
\<close>

definition DEVICE_INTERFACE :: string where
  "DEVICE_INTERFACE = ''org.bluez.Device1''"

definition GATT_SERVICE_INTERFACE :: string where
  "GATT_SERVICE_INTERFACE = ''org.bluez.GattService1''"


section \<open>Exceptions\<close>

text \<open>
  An exception is its class and the text \<^verbatim>\<open>str(exc)\<close>. The classes are the ones the
  handlers of the module tell apart; all of them derive from \<^verbatim>\<open>Exception\<close>.
  \<open>BleakError\<close> stands for \<^verbatim>\<open>BleakError\<close> and its subclasses other than
  \<^verbatim>\<open>BleakDBusError\<close>; \<open>OtherException\<close> for every class no handler of
  \<^verbatim>\<open>establish_connection\<close> names. What \<^verbatim>\<open>except Exception\<close> does not catch (the
  cancellation of the task, a keyboard interrupt) is not modelled.
\<close>

datatype exc_class =
    TimeoutError | BrokenPipeError | EOFError | AttributeError
  | BleakError | BleakDBusError
  | KeyError | TypeError | NameError | OtherException

datatype exc = Exc (exc_class: exc_class) (exc_str: string)

text \<open>\<^verbatim>\<open>isinstance(exc, BleakError)\<close>: \<^verbatim>\<open>BleakDBusError\<close> is a subclass.\<close>

definition is_BleakError :: "exc \<Rightarrow> bool" where
  "is_BleakError e \<longleftrightarrow> exc_class e = BleakError \<or> exc_class e = BleakDBusError"

text \<open>\<^verbatim>\<open>isinstance(exc, BLEAK_EXCEPTIONS)\<close>, with
  \<^verbatim>\<open>BLEAK_EXCEPTIONS = (AttributeError, BleakError)\<close>.\<close>

definition is_BLEAK_EXCEPTION :: "exc \<Rightarrow> bool" where
  "is_BLEAK_EXCEPTION e \<longleftrightarrow> exc_class e = AttributeError \<or> is_BleakError e"

text \<open>Python's \<^verbatim>\<open>sub in s\<close> on strings.\<close>

fun str_contains :: "string \<Rightarrow> string \<Rightarrow> bool" where
  "str_contains [] sub = (sub = [])"
| "str_contains (c # cs) sub = (take (length sub) (c # cs) = sub \<or> str_contains cs sub)"

text \<open>\<^verbatim>\<open>any(error in text for error in errors)\<close>.\<close>

definition any_error_in :: "string list \<Rightarrow> string \<Rightarrow> bool" where
  "any_error_in errors text = list_ex (\<lambda>error. str_contains text error) errors"


section \<open>Devices and the property snapshot\<close>

text \<open>
  The property map of a \<^verbatim>\<open>org.bluez.Device1\<close> interface: every key may be missing,
  \<^verbatim>\<open>props["Address"]\<close> raises \<^verbatim>\<open>KeyError\<close> then and \<^verbatim>\<open>props.get("RSSI")\<close> is
  \<^verbatim>\<open>None\<close>.
\<close>

record device_props =
  Address :: "string option"
  Alias :: "string option"
  RSSI :: "int option"
  Connected :: "bool option"
  UUIDs :: "string list option"
  ManufacturerData :: "(nat \<times> 8 word list) list option"

text \<open>\<^verbatim>\<open>manager._properties\<close>: backend path to interface name to property map.\<close>

type_synonym interfaces = "string \<rightharpoonup> device_props"
type_synonym properties = "string \<rightharpoonup> interfaces"

text \<open>
  \<^verbatim>\<open>BLEDevice.details\<close> is \<^verbatim>\<open>None\<close> or a dict; of a dict the keys \<^verbatim>\<open>"path"\<close> and
  \<^verbatim>\<open>"props"\<close> are read.
\<close>

record details_dict =
  dict_path :: "string option"
  dict_props :: "device_props option"

record ble_device =
  address :: string
  name :: string
  details :: "details_dict option"
  rssi :: "int option"
  uuids :: "string list"
  manufacturer_data :: "(nat \<times> 8 word list) list"

text \<open>\<^verbatim>\<open>rssi or UNREACHABLE_RSSI\<close>: \<^verbatim>\<open>None\<close> and \<open>0\<close> are falsy.\<close>

definition rssi_or_unreachable :: "int option \<Rightarrow> int" where
  "rssi_or_unreachable r =
     (case r of None \<Rightarrow> UNREACHABLE_RSSI
      | Some v \<Rightarrow> if v = 0 then UNREACHABLE_RSSI else v)"

text \<open>
  \<^verbatim>\<open>path in properties and defs.DEVICE_INTERFACE in properties[path]\<close>, and then
  \<^verbatim>\<open>properties[path][defs.DEVICE_INTERFACE]\<close>.
\<close>

definition device_record :: "properties \<Rightarrow> string \<Rightarrow> device_props option" where
  "device_record properties p =
     (case properties p of None \<Rightarrow> None | Some ifaces \<Rightarrow> ifaces DEVICE_INTERFACE)"


section \<open>The device resolver\<close>

text \<open>
  \<^verbatim>\<open>_get_possible_paths\<close>: \<^verbatim>\<open>f"{path[0:14]}{i}{path[15:]}"\<close> for \<open>i\<close> in
  \<^verbatim>\<open>range(0, 9)\<close>; \<^verbatim>\<open>str(i)\<close> is one digit.
\<close>

definition get_possible_paths :: "string \<Rightarrow> string list" where
  "get_possible_paths p = map (\<lambda>i. take 14 p @ [i] @ drop 15 p) ''012345678''"

text \<open>
  One round of the \<^verbatim>\<open>for\<close> loop of \<^verbatim>\<open>get_bluez_device\<close>, on the loop's variables
  \<^verbatim>\<open>(best_path, rssi_to_beat)\<close>. \<open>candidate_rejected\<close> is the condition of the second
  \<^verbatim>\<open>continue\<close>.
\<close>

definition candidate_rejected :: "int \<Rightarrow> int \<Rightarrow> int option \<Rightarrow> bool" where
  "candidate_rejected device_rssi rssi_to_beat r \<longleftrightarrow>
     rssi_to_beat \<noteq> UNREACHABLE_RSSI \<and>
     (case r of None \<Rightarrow> True
      | Some v \<Rightarrow> v = 0 \<or> v - RSSI_SWITCH_THRESHOLD < device_rssi \<or> v < rssi_to_beat)"

definition candidate_step ::
  "properties \<Rightarrow> string \<Rightarrow> int \<Rightarrow> string \<Rightarrow> string \<times> int \<Rightarrow> string \<times> int" where
  "candidate_step properties device_path device_rssi p st =
     (if p = device_path then st
      else case device_record properties p of
        None \<Rightarrow> st
      | Some d \<Rightarrow>
          if candidate_rejected device_rssi (snd st) (RSSI d) then st
          else (p, rssi_or_unreachable (RSSI d)))"

text \<open>The start value of \<^verbatim>\<open>rssi_to_beat = device_rssi\<close>, after the disappearance check.\<close>

definition start_rssi :: "properties \<Rightarrow> string \<Rightarrow> int option \<Rightarrow> int" where
  "start_rssi properties device_path r =
     (if device_record properties device_path = None then UNREACHABLE_RSSI
      else rssi_or_unreachable r)"

definition best_candidate :: "properties \<Rightarrow> string \<Rightarrow> int option \<Rightarrow> string \<times> int" where
  "best_candidate properties device_path r =
     (let device_rssi = start_rssi properties device_path r
      in fold (candidate_step properties device_path device_rssi)
           (get_possible_paths device_path) (device_path, device_rssi))"

text \<open>
  The \<^verbatim>\<open>BLEDevice(...)\<close> built from the winning path's record. \<^verbatim>\<open>props["Address"]\<close>
  and \<^verbatim>\<open>props["Alias"]\<close> raise \<^verbatim>\<open>KeyError\<close> on a missing key; \<^verbatim>\<open>bytes(v)\<close> copies a
  byte array.
\<close>

text \<open>
  \<^verbatim>\<open>str(KeyError(key))\<close> is \<^verbatim>\<open>repr(key)\<close>: the key between single quotes, for a key
  that holds neither a quote nor a backslash.
\<close>

definition key_error :: "string \<Rightarrow> exc" where
  "key_error k = Exc KeyError ([CHR 0x27] @ k @ [CHR 0x27])"

definition make_device :: "string \<Rightarrow> int \<Rightarrow> device_props \<Rightarrow> exc + ble_device" where
  "make_device best_path rssi_to_beat props =
     (case Address props of
        None \<Rightarrow> Inl (key_error ''Address'')
      | Some a \<Rightarrow>
          (case Alias props of
             None \<Rightarrow> Inl (key_error ''Alias'')
           | Some al \<Rightarrow>
               Inr \<lparr>address = a, name = al,
                 details = Some \<lparr>dict_path = Some best_path, dict_props = Some props\<rparr>,
                 rssi = Some rssi_to_beat,
                 uuids = (case UUIDs props of None \<Rightarrow> [] | Some u \<Rightarrow> u),
                 manufacturer_data =
                   (case ManufacturerData props of None \<Rightarrow> [] | Some m \<Rightarrow> m)\<rparr>))"

text \<open>
  The body of the \<^verbatim>\<open>try\<close> block. The first argument is what
  \<^verbatim>\<open>await get_global_bluez_manager()\<close> gives: an exception, or the manager's property
  snapshot. \<open>Inl\<close> is an exception raised inside the block. The argument
  \<^verbatim>\<open>_log_disappearance\<close> only selects a log line and is left out.
\<close>

definition get_bluez_device_try ::
  "exc + properties \<Rightarrow> string \<Rightarrow> int option \<Rightarrow> exc + ble_device option" where
  "get_bluez_device_try manager device_path r =
     (case manager of
        Inl e \<Rightarrow> Inl e
      | Inr properties \<Rightarrow>
          (let best = best_candidate properties device_path r
           in if fst best = device_path then Inr None
              else (case device_record properties (fst best) of
                      None \<Rightarrow> Inl (key_error (fst best))
                    | Some props \<Rightarrow>
                        (case make_device (fst best) (snd best) props of
                           Inl e \<Rightarrow> Inl e
                         | Inr device \<Rightarrow> Inr (Some device)))))"

text \<open>
  \<^verbatim>\<open>get_bluez_device\<close>: \<^verbatim>\<open>except Exception\<close> logs and falls through to
  \<^verbatim>\<open>return None\<close>.
\<close>

definition get_bluez_device ::
  "exc + properties \<Rightarrow> string \<Rightarrow> int option \<Rightarrow> ble_device option" where
  "get_bluez_device manager device_path r =
     (case get_bluez_device_try manager device_path r of
        Inl e \<Rightarrow> None
      | Inr result \<Rightarrow> result)"

text \<open>\<^verbatim>\<open>freshen_ble_device\<close>.\<close>

definition freshen_ble_device :: "exc + properties \<Rightarrow> ble_device \<Rightarrow> ble_device option" where
  "freshen_ble_device manager device =
     (case details device of
        None \<Rightarrow> None
      | Some d \<Rightarrow>
          (case dict_path d of
             None \<Rightarrow> None
           | Some p \<Rightarrow> get_bluez_device manager p (rssi device)))"


section \<open>The caching client\<close>

text \<open>
  \<open>is_linux\<close> is \<^verbatim>\<open>IS_LINUX = CAN_CACHE_SERVICES\<close>, and
  \<open>bleak_has_service_cache_support\<close> is \<^verbatim>\<open>BLEAK_HAS_SERVICE_CACHE_SUPPORT\<close>: both are
  computed once, at import, from the platform and the installed bleak.
\<close>

record platform =
  is_linux :: bool
  bleak_has_service_cache_support :: bool

text \<open>A \<^verbatim>\<open>BleakGATTServiceCollection\<close>, opaque to this module.\<close>

type_synonym service_collection = "string list"

text \<open>
  A client object. \<open>client_id\<close> tells the objects of one run apart: the number of
  clients built before it. \<open>client_cached_services\<close> is \<^verbatim>\<open>_cached_services\<close>,
  \<open>client_services\<close> is \<^verbatim>\<open>services\<close>, \<open>client_services_resolved\<close> is
  \<^verbatim>\<open>_services_resolved\<close>.
\<close>

record client =
  client_id :: nat
  client_device :: ble_device
  client_has_disconnected_callback :: bool
  client_cached_services :: "service_collection option"
  client_services :: "service_collection option"
  client_services_resolved :: bool
  client_is_connected :: bool

text \<open>What a run does to the world outside its own variables, in order.\<close>

datatype event =
    Construct_client nat ble_device
  | Set_disconnected_callback nat
  | Set_cached_services nat
  | Disconnect_device ble_device
  | Connect nat real bool
  | Sleep real
  | Super_get_services nat
  | Disconnect nat

text \<open>The property \<^verbatim>\<open>_has_service_cache\<close>.\<close>

definition has_service_cache :: "platform \<Rightarrow> client \<Rightarrow> bool" where
  "has_service_cache pf c \<longleftrightarrow>
     \<not> bleak_has_service_cache_support pf \<and> is_linux pf \<and> client_cached_services c \<noteq> None"

definition set_cached_services :: "service_collection option \<Rightarrow> client \<Rightarrow> client" where
  "set_cached_services services c = c\<lparr>client_cached_services := services\<rparr>"

text \<open>
  \<^verbatim>\<open>BleakClientWithServiceCache.get_services\<close>. \<open>super_get_services\<close> is what
  \<^verbatim>\<open>await super().get_services(...)\<close> does: it raises or returns a collection.
  \<open>super_disconnect\<close> is what \<^verbatim>\<open>await self.disconnect()\<close> does: it returns
  (\<open>None\<close>) or raises; when it raises inside the handler, the bare \<^verbatim>\<open>raise\<close> after it
  is not reached and its exception leaves the method. The result is the client after the
  call, the calls made on the superclass, and what the method returns or raises.
\<close>

definition get_services ::
  "platform \<Rightarrow> exc + service_collection \<Rightarrow> exc option \<Rightarrow> client \<Rightarrow>
   client \<times> event list \<times> (exc + service_collection)" where
  "get_services pf super_get_services super_disconnect c =
     (case (if has_service_cache pf c then client_cached_services c else None) of
        Some cached \<Rightarrow>
          (c\<lparr>client_services := Some cached, client_services_resolved := True\<rparr>, [],
           Inr cached)
      | None \<Rightarrow>
          (case super_get_services of
             Inr services \<Rightarrow> (c, [Super_get_services (client_id c)], Inr services)
           | Inl e \<Rightarrow>
               (case super_disconnect of
                  None \<Rightarrow>
                    (c\<lparr>client_is_connected := False\<rparr>,
                     [Super_get_services (client_id c), Disconnect (client_id c)], Inl e)
                | Some e' \<Rightarrow>
                    (c, [Super_get_services (client_id c), Disconnect (client_id c)],
                     Inl e'))))"


section \<open>The retry loop\<close>

text \<open>
  \<^verbatim>\<open>ble_device_has_changed\<close>. \<^verbatim>\<open>"path" in new.details\<close> raises \<^verbatim>\<open>TypeError\<close> when
  \<^verbatim>\<open>new.details\<close> is \<^verbatim>\<open>None\<close>; the \<^verbatim>\<open>and\<close> chain reaches it only when the original's
  details are a dict with a path.
\<close>

definition device_path_of :: "ble_device \<Rightarrow> string option" where
  "device_path_of d = (case details d of None \<Rightarrow> None | Some dd \<Rightarrow> dict_path dd)"

definition ble_device_has_changed :: "ble_device \<Rightarrow> ble_device \<Rightarrow> exc + bool" where
  "ble_device_has_changed original new =
     (if address original \<noteq> address new then Inr True
      else case device_path_of original of
        None \<Rightarrow> Inr False
      | Some p \<Rightarrow>
          (case details new of
             None \<Rightarrow> Inl (Exc TypeError ''argument of type 'NoneType' is not iterable'')
           | Some dd \<Rightarrow>
               (case dict_path dd of
                  None \<Rightarrow> Inr False
                | Some q \<Rightarrow> Inr (p \<noteq> q))))"

text \<open>\<^verbatim>\<open>ble_device_description\<close>.\<close>

definition ble_device_description :: "ble_device \<Rightarrow> string" where
  "ble_device_description d =
     (case device_path_of d of Some p \<Rightarrow> p | None \<Rightarrow> address d)"

text \<open>\<^verbatim>\<open>device_is_connected\<close>: every exception of its \<^verbatim>\<open>try\<close> block gives \<^verbatim>\<open>False\<close>.\<close>

definition device_is_connected :: "exc + properties \<Rightarrow> ble_device \<Rightarrow> bool" where
  "device_is_connected manager d =
     (case device_path_of d of
        None \<Rightarrow> False
      | Some p \<Rightarrow>
          (case manager of
             Inl e \<Rightarrow> False
           | Inr properties \<Rightarrow>
               (case device_record properties p of
                  None \<Rightarrow> False
                | Some props \<Rightarrow> (case Connected props of None \<Rightarrow> False | Some b \<Rightarrow> b))))"

text \<open>
  The arguments of \<^verbatim>\<open>establish_connection\<close> that stay fixed during a run.
  \<open>client_class_caches\<close> says whether \<^verbatim>\<open>client_class\<close> is
  \<^verbatim>\<open>BleakClientWithServiceCache\<close> or a subclass of it; \<open>disconnected_callback\<close> and
  \<open>ble_device_callback\<close> say whether the argument was given. A given
  \<^verbatim>\<open>cached_services\<close> object is truthy.
\<close>

record params =
  platform_of :: platform
  client_class_caches :: bool
  conn_name :: string
  disconnected_callback :: bool
  max_attempts :: int
  cached_services :: "service_collection option"
  ble_device_callback :: bool

text \<open>
  What the world answers during one attempt: the device \<^verbatim>\<open>ble_device_callback()\<close>
  returns, the manager as \<^verbatim>\<open>freshen_ble_device\<close> and as \<^verbatim>\<open>device_is_connected\<close> find
  it, and the outcome of \<^verbatim>\<open>client.connect\<close> under the safety timeout (\<open>None\<close>: it
  returned). The callback, the client's constructor and \<^verbatim>\<open>disconnect_device\<close> are called
  outside every \<^verbatim>\<open>try\<close> block and are taken to return.
\<close>

record attempt_env =
  callback_device :: ble_device
  freshen_manager :: "exc + properties"
  connected_manager :: "exc + properties"
  connect_result :: "exc option"

text \<open>The local variables of \<^verbatim>\<open>establish_connection\<close>, and the events so far.\<close>

record conn_state =
  timeouts :: int
  connect_errors :: int
  transient_errors :: int
  attempt :: nat
  can_use_cached_services :: bool
  create_client :: bool
  device :: ble_device
  current_client :: "client option"
  clients_built :: nat
  trace :: "event list"

datatype terminal_error =
    BleakNotFoundError string
  | BleakAbortedError string
  | BleakConnectionError string

text \<open>
  How a run ends: it returns the client, raises one of the module's three errors, or an
  exception no handler names leaves it as it is.
\<close>

datatype outcome =
    Connected client conn_state
  | Failed terminal_error conn_state
  | Propagated exc conn_state

datatype step = Continue conn_state | Done outcome

text \<open>
  \<^verbatim>\<open>_raise_if_needed\<close>, reading the counters of the enclosing call: \<open>None\<close> when it
  returns, the error when it raises.
\<close>

definition raise_if_needed ::
  "int \<Rightarrow> conn_state \<Rightarrow> string \<Rightarrow> string \<Rightarrow> exc \<Rightarrow> terminal_error option" where
  "raise_if_needed max_att s nm description e =
     (if timeouts s + connect_errors s < max_att \<and> transient_errors s < MAX_TRANSIENT_ERRORS
      then None
      else let msg = nm @ '' - '' @ description @ '': Failed to connect: '' @ exc_str e in
        if exc_class e = TimeoutError \<or> str_contains (exc_str e) ''not found''
        then Some (BleakNotFoundError msg)
        else if is_BleakError e \<and> any_error_in ABORT_ERRORS (exc_str e)
        then Some (BleakAbortedError (msg @ '': '' @ ABORT_ADVICE))
        else if is_BleakError e \<and> any_error_in DEVICE_MISSING_ERRORS (exc_str e)
        then Some (BleakNotFoundError (msg @ '': '' @ DEVICE_MISSING_ADVICE))
        else Some (BleakConnectionError msg))"

text \<open>Whether one of the four \<^verbatim>\<open>except\<close> clauses of the loop catches the exception.\<close>

definition caught :: "exc \<Rightarrow> bool" where
  "caught e \<longleftrightarrow>
     exc_class e = TimeoutError \<or> exc_class e = BrokenPipeError \<or> exc_class e = EOFError \<or>
     is_BLEAK_EXCEPTION e"

definition add_event :: "event \<Rightarrow> conn_state \<Rightarrow> conn_state" where
  "add_event ev s = s\<lparr>trace := trace s @ [ev]\<rparr>"

text \<open>
  The body of the matching \<^verbatim>\<open>except\<close> clause up to its call of
  \<^verbatim>\<open>_raise_if_needed\<close>: the counter and the back-off sleep. The clauses are tried in
  the order of the source.
\<close>

definition count_failure :: "exc \<Rightarrow> conn_state \<Rightarrow> conn_state" where
  "count_failure e s =
     (if exc_class e = TimeoutError then s\<lparr>timeouts := timeouts s + 1\<rparr>
      else if exc_class e = BrokenPipeError then s\<lparr>transient_errors := transient_errors s + 1\<rparr>
      else if exc_class e = EOFError
      then add_event (Sleep BLEAK_DBUS_BACKOFF_TIME)
             (s\<lparr>transient_errors := transient_errors s + 1\<rparr>)
      else
        let s' = (if any_error_in TRANSIENT_ERRORS (exc_str e)
                  then s\<lparr>transient_errors := transient_errors s + 1\<rparr>
                  else s\<lparr>connect_errors := connect_errors s + 1\<rparr>)
        in if exc_class e = BleakDBusError
           then add_event (Sleep BLEAK_DBUS_BACKOFF_TIME) s'
           else s')"

text \<open>
  The \<^verbatim>\<open>try\<close> statement's handlers and the \<^verbatim>\<open>await asyncio.sleep(0)\<close> that ends a
  round which neither returned nor raised.
\<close>

definition on_connect_error :: "params \<Rightarrow> exc \<Rightarrow> conn_state \<Rightarrow> step" where
  "on_connect_error P e s =
     (if \<not> caught e then Done (Propagated e s)
      else let s' = count_failure e s in
        case raise_if_needed (max_attempts P) s' (conn_name P)
               (ble_device_description (device s')) e of
          Some err \<Rightarrow> Done (Failed err s')
        | None \<Rightarrow> Continue (add_event (Sleep 0) s'))"

text \<open>
  From \<^verbatim>\<open>attempt += 1\<close> to the end of \<^verbatim>\<open>if create_client:\<close>: the device of this
  round, and the client built or kept for it.
\<close>

definition new_client :: "params \<Rightarrow> conn_state \<Rightarrow> client" where
  "new_client P s =
     \<lparr>client_id = clients_built s, client_device = device s,
      client_has_disconnected_callback = disconnected_callback P,
      client_cached_services =
        (if can_use_cached_services s \<and> cached_services P \<noteq> None \<and> client_class_caches P
         then cached_services P else None),
      client_services = None, client_services_resolved = False,
      client_is_connected = False\<rparr>"

definition build_client :: "params \<Rightarrow> conn_state \<Rightarrow> conn_state" where
  "build_client P s =
     (if create_client s then
        s\<lparr>current_client := Some (new_client P s),
          clients_built := clients_built s + 1,
          create_client := False,
          trace := trace s @ [Construct_client (clients_built s) (device s)] @
            (if disconnected_callback P then [Set_disconnected_callback (clients_built s)]
             else []) @
            (if can_use_cached_services s \<and> cached_services P \<noteq> None \<and> client_class_caches P
             then [Set_cached_services (clients_built s)] else [])\<rparr>
      else s)"

definition choose_device :: "params \<Rightarrow> attempt_env \<Rightarrow> conn_state \<Rightarrow> conn_state" where
  "choose_device P env s =
     (let s1 = (if ble_device_callback P then s\<lparr>device := callback_device env\<rparr> else s)
      in case freshen_ble_device (freshen_manager env) (device s1) of
           Some fresh_device \<Rightarrow> s1\<lparr>device := fresh_device, can_use_cached_services := False\<rparr>
         | None \<Rightarrow> s1)"

definition prepare_client :: "params \<Rightarrow> attempt_env \<Rightarrow> conn_state \<Rightarrow> exc + conn_state" where
  "prepare_client P env s =
     (let original_device = device s;
          s1 = choose_device P env (s\<lparr>attempt := attempt s + 1\<rparr>)
      in case (if \<not> create_client s1
               then ble_device_has_changed original_device (device s1)
               else Inr True) of
           Inl e \<Rightarrow> Inl e
         | Inr create \<Rightarrow> Inr (build_client P (s1\<lparr>create_client := create\<rparr>)))"

text \<open>\<^verbatim>\<open>if IS_LINUX and await device_is_connected(device): ... disconnect_device\<close>.\<close>

definition close_stale :: "params \<Rightarrow> attempt_env \<Rightarrow> conn_state \<Rightarrow> conn_state" where
  "close_stale P env s =
     (if is_linux (platform_of P) \<and> device_is_connected (connected_manager env) (device s)
      then add_event (Disconnect_device (device s)) s
      else s)"

text \<open>
  One round of \<^verbatim>\<open>while True\<close>. When \<^verbatim>\<open>ble_device_has_changed\<close> raises, the
  attempt has been counted and the device of the round chosen already. Reading
  \<^verbatim>\<open>client\<close> before any was bound would raise \<^verbatim>\<open>UnboundLocalError\<close>, a
  \<^verbatim>\<open>NameError\<close>.
\<close>

definition attempt_step :: "params \<Rightarrow> attempt_env \<Rightarrow> conn_state \<Rightarrow> step" where
  "attempt_step P env s =
     (case prepare_client P env s of
        Inl e \<Rightarrow> Done (Propagated e (choose_device P env (s\<lparr>attempt := attempt s + 1\<rparr>)))
      | Inr s1 \<Rightarrow>
          (let s2 = close_stale P env s1 in
           case current_client s2 of
             None \<Rightarrow> Done (Propagated (Exc NameError ''client'') s2)
           | Some c \<Rightarrow>
               (let s3 = add_event
                      (Connect (client_id c) BLEAK_TIMEOUT (cached_services P \<noteq> None)) s2
                in case connect_result env of
                     None \<Rightarrow> Done (Connected c s3)
                   | Some e \<Rightarrow> on_connect_error P e s3)))"


text \<open>
  What is left of the retry budget: the loop goes on only while
  \<^verbatim>\<open>timeouts + connect_errors < max_attempts\<close> and
  \<^verbatim>\<open>transient_errors < MAX_TRANSIENT_ERRORS\<close>, and every caught failure adds one to one
  of the three counters.
\<close>

definition budget_left :: "int \<Rightarrow> conn_state \<Rightarrow> nat" where
  "budget_left max_att s =
     nat (max_att - (timeouts s + connect_errors s)) +
     nat (MAX_TRANSIENT_ERRORS - transient_errors s)"

lemma count_failure_counters:
  "caught e \<Longrightarrow>
   timeouts (count_failure e s) + connect_errors (count_failure e s) +
     transient_errors (count_failure e s) =
   timeouts s + connect_errors s + transient_errors s + 1 \<and>
   timeouts s \<le> timeouts (count_failure e s) \<and>
   connect_errors s \<le> connect_errors (count_failure e s) \<and>
   transient_errors s \<le> transient_errors (count_failure e s)"
  by (simp add: count_failure_def add_event_def Let_def)

lemma on_connect_error_budget:
  assumes "on_connect_error P e s = Continue s'"
  shows "budget_left (max_attempts P) s' < budget_left (max_attempts P) s"
proof -
  from assms have c: "caught e"
    by (auto simp: on_connect_error_def split: if_splits)
  let ?s = "count_failure e s"
  from assms c have s': "s' = add_event (Sleep 0) ?s"
    and ok: "timeouts ?s + connect_errors ?s < max_attempts P"
      "transient_errors ?s < MAX_TRANSIENT_ERRORS"
    by (auto simp: on_connect_error_def raise_if_needed_def Let_def
        split: if_splits option.splits)
  have eq: "timeouts s' = timeouts ?s" "connect_errors s' = connect_errors ?s"
      "transient_errors s' = transient_errors ?s"
    by (simp_all add: s' add_event_def)
  from count_failure_counters [OF c, of s] ok show ?thesis
    unfolding budget_left_def eq by arith
qed

lemma prepare_client_counters:
  "prepare_client P env s = Inr s1 \<Longrightarrow>
   timeouts s1 = timeouts s \<and> connect_errors s1 = connect_errors s \<and>
   transient_errors s1 = transient_errors s \<and> attempt s1 = Suc (attempt s)"
  by (auto simp: prepare_client_def choose_device_def build_client_def Let_def
      split: sum.splits option.splits if_splits)

lemma close_stale_counters:
  "timeouts (close_stale P env s) = timeouts s \<and>
   connect_errors (close_stale P env s) = connect_errors s \<and>
   transient_errors (close_stale P env s) = transient_errors s \<and>
   attempt (close_stale P env s) = attempt s"
  by (simp add: close_stale_def add_event_def)

lemma attempt_step_budget:
  assumes "attempt_step P env s = Continue s'"
  shows "budget_left (max_attempts P) s' < budget_left (max_attempts P) s"
proof -
  from assms obtain s1 ev e where s1: "prepare_client P env s = Inr s1"
    and step: "on_connect_error P e (add_event ev (close_stale P env s1)) = Continue s'"
    by (auto simp: attempt_step_def Let_def split: sum.splits option.splits)
  from on_connect_error_budget [OF step] prepare_client_counters [OF s1]
    close_stale_counters [of P env s1]
  show ?thesis by (simp add: budget_left_def add_event_def)
qed

text \<open>
  \<^verbatim>\<open>while True\<close>: the loop ends when a round returns the client or raises. \<open>world\<close>
  gives what the world answers in the round with the given attempt number. The loop
  terminates for every world, since each round that continues uses up budget.
\<close>

function establish_loop :: "params \<Rightarrow> (nat \<Rightarrow> attempt_env) \<Rightarrow> conn_state \<Rightarrow> outcome" where
  "establish_loop P world s =
     (case attempt_step P (world (Suc (attempt s))) s of
        Done result \<Rightarrow> result
      | Continue s' \<Rightarrow> establish_loop P world s')"
  by pat_completeness auto
termination
  by (relation "measure (\<lambda>(P, world, s). budget_left (max_attempts P) s)")
    (auto simp: attempt_step_budget)


declare establish_loop.simps [simp del]

text \<open>The variables as \<^verbatim>\<open>establish_connection\<close> sets them before the loop.\<close>

definition initial_state :: "ble_device \<Rightarrow> conn_state" where
  "initial_state d =
     \<lparr>timeouts = 0, connect_errors = 0, transient_errors = 0, attempt = 0,
      can_use_cached_services = True, create_client = True, device = d,
      current_client = None, clients_built = 0, trace = []\<rparr>"

definition establish_connection ::
  "params \<Rightarrow> ble_device \<Rightarrow> (nat \<Rightarrow> attempt_env) \<Rightarrow> outcome" where
  "establish_connection P d world = establish_loop P world (initial_state d)"


section \<open>Snapshots and predicates used in the statements\<close>

text \<open>Two adapters see the device: \<open>hci0\<close> at \<open>-60\<close>, \<open>hci1\<close> at \<open>-54\<close>.\<close>

definition snapshot_threshold :: properties where
  "snapshot_threshold =
     [''/org/bluez/hci0/dev_X'' \<mapsto>
        [DEVICE_INTERFACE \<mapsto>
           \<lparr>Address = Some ''AA:BB:CC:DD:EE:FF'', Alias = Some ''X'', RSSI = Some (- 60),
            Connected = None, UUIDs = None, ManufacturerData = None\<rparr>],
      ''/org/bluez/hci1/dev_X'' \<mapsto>
        [DEVICE_INTERFACE \<mapsto>
           \<lparr>Address = Some ''AA:BB:CC:DD:EE:FF'', Alias = Some ''X'', RSSI = Some (- 54),
            Connected = None, UUIDs = None, ManufacturerData = None\<rparr>]]"

text \<open>Only \<open>hci5\<close> sees the device, at \<open>-40\<close>.\<close>

definition snapshot_hci5 :: properties where
  "snapshot_hci5 =
     [''/org/bluez/hci5/dev_X'' \<mapsto>
        [DEVICE_INTERFACE \<mapsto>
           \<lparr>Address = Some ''AA:BB:CC:DD:EE:FF'', Alias = Some ''X'', RSSI = Some (- 40),
            Connected = None, UUIDs = None, ManufacturerData = None\<rparr>]]"

text \<open>Two adapters see the device, \<open>hci1\<close> at \<open>-40\<close> and \<open>hci5\<close> at \<open>-90\<close>.\<close>

definition snapshot_two_siblings :: properties where
  "snapshot_two_siblings =
     [''/org/bluez/hci1/dev_X'' \<mapsto>
        [DEVICE_INTERFACE \<mapsto>
           \<lparr>Address = Some ''AA:BB:CC:DD:EE:FF'', Alias = Some ''X'', RSSI = Some (- 40),
            Connected = None, UUIDs = None, ManufacturerData = None\<rparr>],
      ''/org/bluez/hci5/dev_X'' \<mapsto>
        [DEVICE_INTERFACE \<mapsto>
           \<lparr>Address = Some ''AA:BB:CC:DD:EE:FF'', Alias = Some ''X'', RSSI = Some (- 90),
            Connected = None, UUIDs = None, ManufacturerData = None\<rparr>]]"

text \<open>Only \<open>hci5\<close> sees the device, and its record has no \<^verbatim>\<open>Address\<close>.\<close>

definition snapshot_no_address :: properties where
  "snapshot_no_address =
     [''/org/bluez/hci5/dev_X'' \<mapsto>
        [DEVICE_INTERFACE \<mapsto>
           \<lparr>Address = None, Alias = Some ''X'', RSSI = Some (- 40),
            Connected = None, UUIDs = None, ManufacturerData = None\<rparr>]]"

text \<open>Only \<open>hci5\<close> sees the device, and reports a signal strength of \<open>0\<close>.\<close>

definition snapshot_zero :: properties where
  "snapshot_zero =
     [''/org/bluez/hci5/dev_X'' \<mapsto>
        [DEVICE_INTERFACE \<mapsto>
           \<lparr>Address = Some ''AA:BB:CC:DD:EE:FF'', Alias = Some ''X'', RSSI = Some 0,
            Connected = None, UUIDs = None, ManufacturerData = None\<rparr>]]"

text \<open>A record from which \<^verbatim>\<open>BLEDevice(...)\<close> can be built.\<close>

definition record_complete :: "device_props \<Rightarrow> bool" where
  "record_complete d \<longleftrightarrow> Address d \<noteq> None \<and> Alias d \<noteq> None"

definition siblings_complete :: "properties \<Rightarrow> string \<Rightarrow> bool" where
  "siblings_complete properties device_path \<longleftrightarrow>
     list_all (\<lambda>p. case device_record properties p of None \<Rightarrow> True | Some d \<Rightarrow> record_complete d)
       (get_possible_paths device_path)"

text \<open>
  No enumerated candidate beats the original path: every sibling path is missing from the
  snapshot, or the incumbent is not the sentinel and the sibling reports no signal
  strength, \<open>0\<close>, or one below the original's plus the threshold.
\<close>

definition no_candidate_beats :: "properties \<Rightarrow> string \<Rightarrow> int option \<Rightarrow> bool" where
  "no_candidate_beats properties device_path r \<longleftrightarrow>
     list_all (\<lambda>p. p = device_path \<or>
         (case device_record properties p of
            None \<Rightarrow> True
          | Some d \<Rightarrow>
              start_rssi properties device_path r \<noteq> UNREACHABLE_RSSI \<and>
              (case RSSI d of
                 None \<Rightarrow> True
               | Some v \<Rightarrow> v = 0 \<or> v < start_rssi properties device_path r + RSSI_SWITCH_THRESHOLD)))
       (get_possible_paths device_path)"

text \<open>
  The handle is the best-signal path of an up-to-date snapshot: its path is in the
  snapshot with the handle's own signal strength, a real one, and no path of the device
  reports a stronger signal.
\<close>

definition is_best_signal_path :: "properties \<Rightarrow> string \<Rightarrow> int \<Rightarrow> bool" where
  "is_best_signal_path properties device_path v \<longleftrightarrow>
     v \<noteq> 0 \<and> v \<noteq> UNREACHABLE_RSSI \<and>
     (case device_record properties device_path of
        None \<Rightarrow> False
      | Some d \<Rightarrow> RSSI d = Some v) \<and>
     list_all (\<lambda>p. case device_record properties p of
                  None \<Rightarrow> True
                | Some d \<Rightarrow> (case RSSI d of None \<Rightarrow> True | Some w \<Rightarrow> w \<le> v))
       (get_possible_paths device_path)"

text \<open>
  The invariant of the resolver's loop: the best path is the original one, or an
  enumerated path with a device record whose signal strength is the one to beat.
\<close>

definition resolver_inv :: "properties \<Rightarrow> string \<Rightarrow> string list \<Rightarrow> string \<times> int \<Rightarrow> bool" where
  "resolver_inv properties device_path ps st \<longleftrightarrow>
     fst st = device_path \<or>
     (fst st \<in> set ps \<and>
      (\<exists>d. device_record properties (fst st) = Some d \<and> snd st = rssi_or_unreachable (RSSI d)))"


text \<open>
  A device that \<^verbatim>\<open>ble_device_callback\<close> returns carries details, so that
  \<^verbatim>\<open>"path" in new.details\<close> does not raise.
\<close>

definition callbacks_have_details :: "params \<Rightarrow> (nat \<Rightarrow> attempt_env) \<Rightarrow> bool" where
  "callbacks_have_details P world \<longleftrightarrow>
     (ble_device_callback P \<longrightarrow> (\<forall>i. details (callback_device (world i)) \<noteq> None))"

text \<open>Before a round, a client is bound or is about to be built.\<close>

definition client_ready :: "conn_state \<Rightarrow> bool" where
  "client_ready s \<longleftrightarrow> create_client s \<or> current_client s \<noteq> None"

text \<open>
  The failures the loop counts as transient: a broken pipe, an end of file, and an
  \<^verbatim>\<open>AttributeError\<close> or \<^verbatim>\<open>BleakError\<close> whose text holds one of \<^verbatim>\<open>TRANSIENT_ERRORS\<close>.
\<close>

definition transient_failure :: "exc \<Rightarrow> bool" where
  "transient_failure e \<longleftrightarrow>
     exc_class e = BrokenPipeError \<or> exc_class e = EOFError \<or>
     (is_BLEAK_EXCEPTION e \<and> any_error_in TRANSIENT_ERRORS (exc_str e))"

text \<open>A device, arguments and worlds for the scenarios.\<close>

definition device_x :: ble_device where
  "device_x =
     \<lparr>address = ''AA:BB:CC:DD:EE:FF'', name = ''X'',
      details = Some \<lparr>dict_path = Some ''/org/bluez/hci0/dev_AA_BB_CC_DD_EE_FF'',
                       dict_props = None\<rparr>,
      rssi = Some (- 60), uuids = [], manufacturer_data = []\<rparr>"

definition params_default :: params where
  "params_default =
     \<lparr>platform_of = \<lparr>is_linux = True, bleak_has_service_cache_support = False\<rparr>,
      client_class_caches = True, conn_name = ''X'', disconnected_callback = False,
      max_attempts = MAX_CONNECT_ATTEMPTS, cached_services = None,
      ble_device_callback = False\<rparr>"

definition world_of :: "(nat \<Rightarrow> exc option) \<Rightarrow> nat \<Rightarrow> attempt_env" where
  "world_of results i =
     \<lparr>callback_device = device_x, freshen_manager = Inr Map.empty,
      connected_manager = Inr Map.empty, connect_result = results i\<rparr>"


text \<open>The first client of a run with the default arguments, for the device above.\<close>

definition client_x :: client where
  "client_x = new_client params_default (initial_state device_x)"

section \<open>The resolver's loop\<close>

lemmas resolver_defs =
  get_bluez_device_def get_bluez_device_try_def best_candidate_def
  get_possible_paths_def candidate_step_def candidate_rejected_def start_rssi_def
  device_record_def rssi_or_unreachable_def make_device_def
  UNREACHABLE_RSSI_def RSSI_SWITCH_THRESHOLD_def DEVICE_INTERFACE_def

lemma candidate_step_cases:
  "candidate_step properties device_path device_rssi p st = st \<or>
   (p \<noteq> device_path \<and> (\<exists>d. device_record properties p = Some d \<and>
      \<not> candidate_rejected device_rssi (snd st) (RSSI d) \<and>
      candidate_step properties device_path device_rssi p st = (p, rssi_or_unreachable (RSSI d))))"
  by (auto simp: candidate_step_def split: option.splits)

lemma fold_candidate_inv:
  "resolver_inv properties device_path qs st \<Longrightarrow> set ps \<subseteq> set qs \<Longrightarrow>
   resolver_inv properties device_path qs
     (fold (candidate_step properties device_path device_rssi) ps st)"
proof (induction ps arbitrary: st)
  case Nil
  then show ?case by simp
next
  case (Cons p ps)
  have "resolver_inv properties device_path qs
          (candidate_step properties device_path device_rssi p st)"
    using candidate_step_cases [of properties device_path device_rssi p st] Cons.prems
    by (auto simp: resolver_inv_def)
  then show ?case using Cons by simp
qed

lemma fold_candidate_moved:
  "fst st \<noteq> device_path \<Longrightarrow>
   fst (fold (candidate_step properties device_path device_rssi) ps st) \<noteq> device_path"
proof (induction ps arbitrary: st)
  case Nil
  then show ?case by simp
next
  case (Cons p ps)
  have "fst (candidate_step properties device_path device_rssi p st) \<noteq> device_path"
    using candidate_step_cases [of properties device_path device_rssi p st] Cons.prems
    by auto
  then show ?case using Cons.IH by simp
qed

lemma fold_candidate_unreachable:
  "p \<in> set ps \<Longrightarrow> p \<noteq> device_path \<Longrightarrow> device_record properties p = Some d \<Longrightarrow>
   fst (fold (candidate_step properties device_path device_rssi) ps
          (device_path, UNREACHABLE_RSSI)) \<noteq> device_path"
proof (induction ps)
  case Nil
  then show ?case by simp
next
  case (Cons q ps)
  let ?st = "candidate_step properties device_path device_rssi q (device_path, UNREACHABLE_RSSI)"
  show ?case
  proof (cases "q \<noteq> device_path \<and> device_record properties q \<noteq> None")
    case True
    then have "fst ?st \<noteq> device_path"
      by (auto simp: candidate_step_def candidate_rejected_def)
    then show ?thesis using fold_candidate_moved by simp
  next
    case False
    then have st: "?st = (device_path, UNREACHABLE_RSSI)"
      by (auto simp: candidate_step_def)
    from False Cons.prems have "p \<in> set ps" by auto
    then show ?thesis using Cons st by simp
  qed
qed

lemma fold_candidate_all_rejected:
  "\<forall>p \<in> set ps. p \<noteq> device_path \<longrightarrow>
     (\<forall>d. device_record properties p = Some d \<longrightarrow>
        candidate_rejected device_rssi (snd st) (RSSI d)) \<Longrightarrow>
   fold (candidate_step properties device_path device_rssi) ps st = st"
  by (induction ps) (auto simp: candidate_step_def split: option.splits)

lemma best_candidate_inv:
  "resolver_inv properties device_path (get_possible_paths device_path)
     (best_candidate properties device_path r)"
  unfolding best_candidate_def Let_def
  by (rule fold_candidate_inv) (simp_all add: resolver_inv_def)

lemma make_device_Inr:
  "make_device q v d = Inr dev \<Longrightarrow>
   details dev = Some \<lparr>dict_path = Some q, dict_props = Some d\<rparr> \<and> rssi dev = Some v \<and>
   Address d = Some (address dev) \<and> Alias d = Some (name dev)"
  by (auto simp: make_device_def split: option.splits)

lemma make_device_complete:
  "record_complete d \<Longrightarrow> \<exists>dev. make_device q v d = Inr dev"
  by (auto simp: make_device_def record_complete_def split: option.splits)

lemma get_bluez_device_Some:
  assumes "get_bluez_device (Inr properties) device_path r = Some dev"
  shows "\<exists>q d. best_candidate properties device_path r = (q, rssi_or_unreachable (RSSI d)) \<and>
           q \<noteq> device_path \<and> q \<in> set (get_possible_paths device_path) \<and>
           device_record properties q = Some d \<and>
           make_device q (rssi_or_unreachable (RSSI d)) d = Inr dev"
proof -
  obtain q v where best: "best_candidate properties device_path r = (q, v)"
    by (cases "best_candidate properties device_path r")
  from assms best have q: "q \<noteq> device_path"
    by (auto simp: get_bluez_device_def get_bluez_device_try_def)
  with best best_candidate_inv [of properties device_path r]
  obtain d where d: "q \<in> set (get_possible_paths device_path)"
      "device_record properties q = Some d" "v = rssi_or_unreachable (RSSI d)"
    by (auto simp: resolver_inv_def)
  from assms best q d have "make_device q v d = Inr dev"
    by (auto simp: get_bluez_device_def get_bluez_device_try_def split: sum.splits)
  with best q d show ?thesis by auto
qed


section \<open>Claims about the resolver\<close>

text \<open>
  C2, as the code has it. While the signal strength to beat is not the sentinel, a
  sibling path with a device record is adopted as the new best exactly when its signal
  strength is not \<open>0\<close>, is at least the original handle's strength plus the threshold of
  \<open>6\<close>, and is not below the strength to beat. A candidate at exactly the original's
  strength plus \<open>6\<close> is therefore adopted (when it is not below the strength to beat); a
  candidate below the incumbent never is.
\<close>

theorem candidate_adopted_iff:
  assumes "rssi_to_beat \<noteq> UNREACHABLE_RSSI" and "p \<noteq> device_path"
    and "device_record properties p = Some d"
  shows "candidate_step properties device_path device_rssi p (best_path, rssi_to_beat) =
     (case RSSI d of
        None \<Rightarrow> (best_path, rssi_to_beat)
      | Some v \<Rightarrow>
          if v \<noteq> 0 \<and> device_rssi + 6 \<le> v \<and> rssi_to_beat \<le> v then (p, v)
          else (best_path, rssi_to_beat))"
  using assms
  by (auto simp: candidate_step_def candidate_rejected_def rssi_or_unreachable_def
      RSSI_SWITCH_THRESHOLD_def split: option.splits)

theorem candidate_adopted_iff_witness:
  "candidate_step snapshot_threshold ''/org/bluez/hci0/dev_X'' (- 60) ''/org/bluez/hci1/dev_X''
     (''/org/bluez/hci0/dev_X'', - 60) = (''/org/bluez/hci1/dev_X'', - 54)"
proof -
  have h1: "(- 60 :: int) \<noteq> UNREACHABLE_RSSI"
    by (simp add: UNREACHABLE_RSSI_def)
  have h2: "''/org/bluez/hci1/dev_X'' \<noteq> ''/org/bluez/hci0/dev_X''"
    by simp
  have h3: "device_record snapshot_threshold ''/org/bluez/hci1/dev_X'' =
      Some \<lparr>Address = Some ''AA:BB:CC:DD:EE:FF'', Alias = Some ''X'', RSSI = Some (- 54),
            Connected = None, UUIDs = None, ManufacturerData = None\<rparr>"
    by (simp add: device_record_def snapshot_threshold_def)
  from candidate_adopted_iff [OF h1 h2 h3, where device_rssi = "- 60"
      and best_path = "''/org/bluez/hci0/dev_X''"]
  show ?thesis by simp
qed

text \<open>
  C2 as stated fails: with the original path \<open>hci0\<close> at \<open>-60\<close> and the sibling \<open>hci1\<close> at
  \<open>-54\<close>, exactly the incumbent plus the threshold, the candidate is not rejected and
  \<^verbatim>\<open>get_bluez_device\<close> returns the \<open>hci1\<close> handle.
\<close>

theorem threshold_exact_counterexample:
  "\<not> candidate_rejected (- 60) (- 60) (Some (- 60 + RSSI_SWITCH_THRESHOLD)) \<and>
   map_option (\<lambda>d. (device_path_of d, rssi d))
     (get_bluez_device (Inr snapshot_threshold) ''/org/bluez/hci0/dev_X'' (Some (- 60))) =
   Some (Some ''/org/bluez/hci1/dev_X'', Some (- 60 + RSSI_SWITCH_THRESHOLD))"
  by (simp add: resolver_defs snapshot_threshold_def device_path_of_def)

text \<open>
  C5, as the code has it. When the original path has no device record in the snapshot,
  the incumbent starts as the sentinel. A sibling path with a device record that is
  examined while the strength to beat is still the sentinel is adopted whatever signal
  strength it reports, so the first such sibling always is; once an adopted sibling has
  set a real strength to beat, a later sibling is adopted only if its strength is not
  \<open>0\<close>, not below \<open>-994\<close> and not below the strength to beat. The loop therefore ends
  on an enumerated sibling path that has a device record, and when the records of the
  sibling paths carry \<^verbatim>\<open>Address\<close> and \<^verbatim>\<open>Alias\<close>, \<^verbatim>\<open>get_bluez_device\<close> returns a handle
  built from that path.
\<close>

theorem vanished_sibling_adoption:
  assumes "device_record properties device_path = None"
    and "p \<in> set (get_possible_paths device_path)" and "p \<noteq> device_path"
    and "device_record properties p = Some d"
  shows "candidate_step properties device_path (start_rssi properties device_path r) p
           (best_path, UNREACHABLE_RSSI) = (p, rssi_or_unreachable (RSSI d)) \<and>
    (rssi_to_beat \<noteq> UNREACHABLE_RSSI \<longrightarrow>
       candidate_step properties device_path (start_rssi properties device_path r) p
           (best_path, rssi_to_beat) =
         (case RSSI d of
            None \<Rightarrow> (best_path, rssi_to_beat)
          | Some v \<Rightarrow>
              if v \<noteq> 0 \<and> - 994 \<le> v \<and> rssi_to_beat \<le> v then (p, v)
              else (best_path, rssi_to_beat))) \<and>
    (\<exists>q d'. fst (best_candidate properties device_path r) = q \<and>
       q \<noteq> device_path \<and> q \<in> set (get_possible_paths device_path) \<and>
       device_record properties q = Some d' \<and>
       (siblings_complete properties device_path \<longrightarrow>
          (\<exists>dev. get_bluez_device (Inr properties) device_path r = Some dev \<and>
             details dev = Some \<lparr>dict_path = Some q, dict_props = Some d'\<rparr>)))"
proof -
  obtain q v where best: "best_candidate properties device_path r = (q, v)"
    by (cases "best_candidate properties device_path r")
  have start: "start_rssi properties device_path r = UNREACHABLE_RSSI"
    using assms(1) by (simp add: start_rssi_def)
  have "fst (best_candidate properties device_path r) \<noteq> device_path"
    unfolding best_candidate_def Let_def start
    using assms(2-4) by (rule fold_candidate_unreachable)
  with best have q: "q \<noteq> device_path" by simp
  with best best_candidate_inv [of properties device_path r]
  obtain d' where d': "q \<in> set (get_possible_paths device_path)"
      "device_record properties q = Some d'"
    by (auto simp: resolver_inv_def)
  have "\<exists>dev. get_bluez_device (Inr properties) device_path r = Some dev \<and>
             details dev = Some \<lparr>dict_path = Some q, dict_props = Some d'\<rparr>"
    if "siblings_complete properties device_path"
  proof -
    from that d' have "record_complete d'"
      by (auto simp: siblings_complete_def list_all_iff)
    then obtain dev where dev: "make_device q v d' = Inr dev"
      using make_device_complete by blast
    from best q d' dev have "get_bluez_device (Inr properties) device_path r = Some dev"
      by (simp add: get_bluez_device_def get_bluez_device_try_def)
    with make_device_Inr [OF dev] show ?thesis by blast
  qed
  with best q d' have result: "\<exists>q d'. fst (best_candidate properties device_path r) = q \<and>
       q \<noteq> device_path \<and> q \<in> set (get_possible_paths device_path) \<and>
       device_record properties q = Some d' \<and>
       (siblings_complete properties device_path \<longrightarrow>
          (\<exists>dev. get_bluez_device (Inr properties) device_path r = Some dev \<and>
             details dev = Some \<lparr>dict_path = Some q, dict_props = Some d'\<rparr>))"
    by auto
  have first: "candidate_step properties device_path (start_rssi properties device_path r) p
           (best_path, UNREACHABLE_RSSI) = (p, rssi_or_unreachable (RSSI d))"
    using assms(3,4) by (simp add: candidate_step_def candidate_rejected_def)
  have later: "candidate_step properties device_path (start_rssi properties device_path r) p
           (best_path, rssi_to_beat) =
         (case RSSI d of
            None \<Rightarrow> (best_path, rssi_to_beat)
          | Some v \<Rightarrow>
              if v \<noteq> 0 \<and> - 994 \<le> v \<and> rssi_to_beat \<le> v then (p, v)
              else (best_path, rssi_to_beat))"
    if "rssi_to_beat \<noteq> UNREACHABLE_RSSI"
    using that assms(3,4) unfolding start
    by (auto simp: candidate_step_def candidate_rejected_def rssi_or_unreachable_def
        RSSI_SWITCH_THRESHOLD_def UNREACHABLE_RSSI_def split: option.splits)
  from first later result show ?thesis by blast
qed

text \<open>
  The scenario of C5: \<open>/org/bluez/hci2/dev_X\<close> is absent, \<open>/org/bluez/hci5/dev_X\<close> is
  present with \<open>RSSI = -40\<close>, and the handle returned is the one of \<open>hci5\<close>.
\<close>

theorem vanished_sibling_adoption_witness:
  "device_record snapshot_hci5 ''/org/bluez/hci2/dev_X'' = None \<and>
   ''/org/bluez/hci5/dev_X'' \<in> set (get_possible_paths ''/org/bluez/hci2/dev_X'') \<and>
   siblings_complete snapshot_hci5 ''/org/bluez/hci2/dev_X'' \<and>
   candidate_step snapshot_hci5 ''/org/bluez/hci2/dev_X''
     (start_rssi snapshot_hci5 ''/org/bluez/hci2/dev_X'' None) ''/org/bluez/hci5/dev_X''
     (''/org/bluez/hci2/dev_X'', UNREACHABLE_RSSI) = (''/org/bluez/hci5/dev_X'', - 40) \<and>
   (\<exists>q d'. fst (best_candidate snapshot_hci5 ''/org/bluez/hci2/dev_X'' None) = q \<and>
       q \<noteq> ''/org/bluez/hci2/dev_X'' \<and>
       device_record snapshot_hci5 q = Some d' \<and>
       (\<exists>dev. get_bluez_device (Inr snapshot_hci5) ''/org/bluez/hci2/dev_X'' None = Some dev \<and>
             details dev = Some \<lparr>dict_path = Some q, dict_props = Some d'\<rparr>)) \<and>
   get_bluez_device (Inr snapshot_hci5) ''/org/bluez/hci2/dev_X'' None =
     Some \<lparr>address = ''AA:BB:CC:DD:EE:FF'', name = ''X'',
       details = Some \<lparr>dict_path = Some ''/org/bluez/hci5/dev_X'',
         dict_props = Some \<lparr>Address = Some ''AA:BB:CC:DD:EE:FF'', Alias = Some ''X'',
           RSSI = Some (- 40), Connected = None, UUIDs = None, ManufacturerData = None\<rparr>\<rparr>,
       rssi = Some (- 40), uuids = [], manufacturer_data = []\<rparr>"
proof -
  let ?d = "\<lparr>Address = Some ''AA:BB:CC:DD:EE:FF'', Alias = Some ''X'',
           RSSI = Some (- 40), Connected = None, UUIDs = None, ManufacturerData = None\<rparr>"
  have h1: "device_record snapshot_hci5 ''/org/bluez/hci2/dev_X'' = None"
    by (simp add: device_record_def snapshot_hci5_def)
  have h2: "''/org/bluez/hci5/dev_X'' \<in> set (get_possible_paths ''/org/bluez/hci2/dev_X'')"
    by (simp add: get_possible_paths_def)
  have h3: "''/org/bluez/hci5/dev_X'' \<noteq> ''/org/bluez/hci2/dev_X''" by simp
  have h4: "device_record snapshot_hci5 ''/org/bluez/hci5/dev_X'' = Some ?d"
    by (simp add: device_record_def snapshot_hci5_def)
  have h5: "siblings_complete snapshot_hci5 ''/org/bluez/hci2/dev_X''"
    by (simp add: siblings_complete_def get_possible_paths_def device_record_def
        snapshot_hci5_def record_complete_def)
  have r: "rssi_or_unreachable (RSSI ?d) = - 40"
    by (simp add: rssi_or_unreachable_def)
  have run: "get_bluez_device (Inr snapshot_hci5) ''/org/bluez/hci2/dev_X'' None =
     Some \<lparr>address = ''AA:BB:CC:DD:EE:FF'', name = ''X'',
       details = Some \<lparr>dict_path = Some ''/org/bluez/hci5/dev_X'', dict_props = Some ?d\<rparr>,
       rssi = Some (- 40), uuids = [], manufacturer_data = []\<rparr>"
    by (simp add: resolver_defs snapshot_hci5_def)
  note inst = vanished_sibling_adoption [OF h1 h2 h3 h4, where r = None
      and best_path = "''/org/bluez/hci2/dev_X''" and rssi_to_beat = "- 40"]
  from inst have step: "candidate_step snapshot_hci5 ''/org/bluez/hci2/dev_X''
     (start_rssi snapshot_hci5 ''/org/bluez/hci2/dev_X'' None) ''/org/bluez/hci5/dev_X''
     (''/org/bluez/hci2/dev_X'', UNREACHABLE_RSSI) = (''/org/bluez/hci5/dev_X'', - 40)"
    unfolding r by (rule conjunct1)
  from inst h5 have res: "\<exists>q d'. fst (best_candidate snapshot_hci5 ''/org/bluez/hci2/dev_X'' None) = q \<and>
       q \<noteq> ''/org/bluez/hci2/dev_X'' \<and>
       device_record snapshot_hci5 q = Some d' \<and>
       (\<exists>dev. get_bluez_device (Inr snapshot_hci5) ''/org/bluez/hci2/dev_X'' None = Some dev \<and>
             details dev = Some \<lparr>dict_path = Some q, dict_props = Some d'\<rparr>)"
    by blast
  from h1 h2 h5 step res run show ?thesis by (intro conjI)
qed

text \<open>
  C5 as stated fails: with \<open>hci2\<close> absent, \<open>hci1\<close> present at \<open>-40\<close> and \<open>hci5\<close> present
  at \<open>-90\<close>, the sibling \<open>hci1\<close> is adopted first, and the present sibling \<open>hci5\<close> is
  then rejected because its signal strength is below the \<open>-40\<close> to beat; the handle
  returned is the one of \<open>hci1\<close>.
\<close>

theorem any_sibling_counterexample:
  "device_record snapshot_two_siblings ''/org/bluez/hci2/dev_X'' = None \<and>
   device_record snapshot_two_siblings ''/org/bluez/hci5/dev_X'' \<noteq> None \<and>
   fold (candidate_step snapshot_two_siblings ''/org/bluez/hci2/dev_X''
          (start_rssi snapshot_two_siblings ''/org/bluez/hci2/dev_X'' None))
     (take 5 (get_possible_paths ''/org/bluez/hci2/dev_X''))
     (''/org/bluez/hci2/dev_X'', start_rssi snapshot_two_siblings ''/org/bluez/hci2/dev_X'' None) =
     (''/org/bluez/hci1/dev_X'', - 40) \<and>
   candidate_step snapshot_two_siblings ''/org/bluez/hci2/dev_X''
     (start_rssi snapshot_two_siblings ''/org/bluez/hci2/dev_X'' None) ''/org/bluez/hci5/dev_X''
     (''/org/bluez/hci1/dev_X'', - 40) = (''/org/bluez/hci1/dev_X'', - 40) \<and>
   map_option (\<lambda>d. (device_path_of d, rssi d))
     (get_bluez_device (Inr snapshot_two_siblings) ''/org/bluez/hci2/dev_X'' None) =
   Some (Some ''/org/bluez/hci1/dev_X'', Some (- 40))"
  by (simp add: resolver_defs snapshot_two_siblings_def device_path_of_def)

lemma no_candidate_beats_None:
  assumes "no_candidate_beats properties device_path r"
  shows "get_bluez_device (Inr properties) device_path r = None"
proof -
  let ?dr = "start_rssi properties device_path r"
  have "candidate_rejected ?dr ?dr (RSSI d)"
    if "p \<in> set (get_possible_paths device_path)" and "p \<noteq> device_path"
      and "device_record properties p = Some d" for p d
  proof -
    from assms that(1) have "p = device_path \<or>
         (case device_record properties p of
            None \<Rightarrow> True
          | Some d \<Rightarrow> ?dr \<noteq> UNREACHABLE_RSSI \<and>
              (case RSSI d of
                 None \<Rightarrow> True
               | Some v \<Rightarrow> v = 0 \<or> v < ?dr + RSSI_SWITCH_THRESHOLD))"
      unfolding no_candidate_beats_def list_all_iff by blast
    with that(2,3) show ?thesis
      by (auto simp: candidate_rejected_def split: option.splits)
  qed
  then have "\<forall>p \<in> set (get_possible_paths device_path). p \<noteq> device_path \<longrightarrow>
     (\<forall>d. device_record properties p = Some d \<longrightarrow>
        candidate_rejected ?dr (snd (device_path, ?dr)) (RSSI d))"
    by simp
  then have "best_candidate properties device_path r = (device_path, ?dr)"
    unfolding best_candidate_def Let_def by (rule fold_candidate_all_rejected)
  then show ?thesis
    by (simp add: get_bluez_device_def get_bluez_device_try_def)
qed

lemma best_signal_no_candidate_beats:
  assumes "is_best_signal_path properties device_path v"
  shows "no_candidate_beats properties device_path (Some v)"
proof -
  from assms have "start_rssi properties device_path (Some v) = v"
    by (auto simp: is_best_signal_path_def start_rssi_def rssi_or_unreachable_def
        split: option.splits)
  moreover have "case RSSI d of None \<Rightarrow> True | Some w \<Rightarrow> w \<le> v"
    if "p \<in> set (get_possible_paths device_path)" and "device_record properties p = Some d"
    for p d
  proof -
    from assms that(1) have "case device_record properties p of
                  None \<Rightarrow> True
                | Some d \<Rightarrow> (case RSSI d of None \<Rightarrow> True | Some w \<Rightarrow> w \<le> v)"
      unfolding is_best_signal_path_def list_all_iff by blast
    with that(2) show ?thesis by simp
  qed
  moreover from assms have "v \<noteq> UNREACHABLE_RSSI"
    by (simp add: is_best_signal_path_def)
  ultimately show ?thesis
    unfolding no_candidate_beats_def list_all_iff
    by (fastforce simp: RSSI_SWITCH_THRESHOLD_def split: option.splits)
qed

text \<open>
  C8. \<^verbatim>\<open>get_bluez_device\<close> returns \<^verbatim>\<open>None\<close> whenever no enumerated candidate beats the
  original path; so it does for a handle that is already the best-signal path of an
  up-to-date snapshot, and resolving such a handle again changes nothing.
\<close>

theorem no_fresher_handle:
  "(no_candidate_beats properties device_path r \<longrightarrow>
      get_bluez_device (Inr properties) device_path r = None) \<and>
   (is_best_signal_path properties device_path v \<longrightarrow>
      get_bluez_device (Inr properties) device_path (Some v) = None)"
  using no_candidate_beats_None best_signal_no_candidate_beats by blast

text \<open>
  On the snapshot with \<open>hci0\<close> at \<open>-60\<close> and \<open>hci1\<close> at \<open>-54\<close>: the handle of \<open>hci1\<close> is
  not beaten, whether it carries \<open>-59\<close> or its up-to-date \<open>-54\<close>.
\<close>

theorem no_fresher_handle_witness:
  "no_candidate_beats snapshot_threshold ''/org/bluez/hci1/dev_X'' (Some (- 59)) \<and>
   get_bluez_device (Inr snapshot_threshold) ''/org/bluez/hci1/dev_X'' (Some (- 59)) = None \<and>
   is_best_signal_path snapshot_threshold ''/org/bluez/hci1/dev_X'' (- 54) \<and>
   get_bluez_device (Inr snapshot_threshold) ''/org/bluez/hci1/dev_X'' (Some (- 54)) = None"
proof -
  have h1: "no_candidate_beats snapshot_threshold ''/org/bluez/hci1/dev_X'' (Some (- 59))"
    by (simp add: no_candidate_beats_def get_possible_paths_def device_record_def
        snapshot_threshold_def start_rssi_def rssi_or_unreachable_def
        UNREACHABLE_RSSI_def RSSI_SWITCH_THRESHOLD_def)
  have h2: "is_best_signal_path snapshot_threshold ''/org/bluez/hci1/dev_X'' (- 54)"
    by (simp add: is_best_signal_path_def get_possible_paths_def device_record_def
        snapshot_threshold_def UNREACHABLE_RSSI_def)
  from h1 h2 no_fresher_handle [of snapshot_threshold "''/org/bluez/hci1/dev_X''"
      "Some (- 59)" "- 54"]
  show ?thesis by blast
qed

text \<open>
  C9. An exception of \<^verbatim>\<open>get_global_bluez_manager\<close>, and any exception raised inside the
  \<^verbatim>\<open>try\<close> block, is swallowed: \<^verbatim>\<open>get_bluez_device\<close> returns \<^verbatim>\<open>None\<close>, and so does
  \<^verbatim>\<open>freshen_ble_device\<close>, through which the retry loop calls it.
\<close>

theorem resolver_swallows_errors:
  "get_bluez_device (Inl e) device_path r = None \<and>
   (get_bluez_device_try manager device_path r = Inl e' \<longrightarrow>
      get_bluez_device manager device_path r = None \<and>
      freshen_ble_device manager
        (dev\<lparr>details := Some \<lparr>dict_path = Some device_path, dict_props = ps\<rparr>,
             rssi := r\<rparr>) = None)"
  by (simp add: get_bluez_device_def get_bluez_device_try_def freshen_ble_device_def)

text \<open>
  The winning path's record has no \<^verbatim>\<open>Address\<close>: \<^verbatim>\<open>props["Address"]\<close> raises
  \<^verbatim>\<open>KeyError\<close> inside the block, and the caller gets \<^verbatim>\<open>None\<close>.
\<close>

theorem resolver_swallows_errors_witness:
  "get_bluez_device_try (Inr snapshot_no_address) ''/org/bluez/hci2/dev_X'' None =
     Inl (key_error ''Address'') \<and>
   get_bluez_device (Inr snapshot_no_address) ''/org/bluez/hci2/dev_X'' None = None \<and>
   freshen_ble_device (Inr snapshot_no_address)
     \<lparr>address = ''AA:BB:CC:DD:EE:FF'', name = ''X'',
      details = Some \<lparr>dict_path = Some ''/org/bluez/hci2/dev_X'', dict_props = None\<rparr>,
      rssi = None, uuids = [], manufacturer_data = []\<rparr> = None"
proof -
  have h: "get_bluez_device_try (Inr snapshot_no_address) ''/org/bluez/hci2/dev_X'' None =
     Inl (key_error ''Address'')"
    by (simp add: resolver_defs snapshot_no_address_def)
  from h resolver_swallows_errors [where manager = "Inr snapshot_no_address"
      and device_path = "''/org/bluez/hci2/dev_X''" and r = None
      and e' = "key_error ''Address''" and ps = None
      and dev = "\<lparr>address = ''AA:BB:CC:DD:EE:FF'', name = ''X'',
      details = None, rssi = None, uuids = [], manufacturer_data = []\<rparr>"]
  show ?thesis by simp
qed

text \<open>
  C10. A candidate whose record reports a signal strength of \<open>0\<close>, or none, is never
  adopted while the strength to beat is not the sentinel; and a handle that
  \<^verbatim>\<open>get_bluez_device\<close> returns is built from a path of the snapshot, with the sentinel
  \<open>-1000\<close> as its signal strength when that path's record reports \<open>0\<close> or none.
\<close>

theorem zero_rssi_is_unreachable:
  "(rssi_to_beat \<noteq> UNREACHABLE_RSSI \<and> p \<noteq> device_path \<and>
    device_record properties p = Some d \<and> (RSSI d = None \<or> RSSI d = Some 0) \<longrightarrow>
      candidate_step properties device_path device_rssi p (best_path, rssi_to_beat) =
        (best_path, rssi_to_beat)) \<and>
   (get_bluez_device (Inr properties) device_path r = Some dev \<longrightarrow>
      (\<exists>q d'. details dev = Some \<lparr>dict_path = Some q, dict_props = Some d'\<rparr> \<and>
         device_record properties q = Some d' \<and>
         ((RSSI d' = None \<or> RSSI d' = Some 0) \<longrightarrow> rssi dev = Some UNREACHABLE_RSSI)))"
proof (intro conjI impI)
  assume "rssi_to_beat \<noteq> UNREACHABLE_RSSI \<and> p \<noteq> device_path \<and>
    device_record properties p = Some d \<and> (RSSI d = None \<or> RSSI d = Some 0)"
  then show "candidate_step properties device_path device_rssi p (best_path, rssi_to_beat) =
        (best_path, rssi_to_beat)"
    by (auto simp: candidate_step_def candidate_rejected_def)
next
  assume "get_bluez_device (Inr properties) device_path r = Some dev"
  from get_bluez_device_Some [OF this]
  obtain q d' where q: "device_record properties q = Some d'"
      "make_device q (rssi_or_unreachable (RSSI d')) d' = Inr dev"
    by blast
  from make_device_Inr [OF q(2)] q(1)
  show "\<exists>q d'. details dev = Some \<lparr>dict_path = Some q, dict_props = Some d'\<rparr> \<and>
         device_record properties q = Some d' \<and>
         ((RSSI d' = None \<or> RSSI d' = Some 0) \<longrightarrow> rssi dev = Some UNREACHABLE_RSSI)"
    by (auto simp: rssi_or_unreachable_def)
qed

text \<open>
  The original path \<open>hci2\<close> has vanished and \<open>hci5\<close> reports \<open>0\<close>: against an incumbent
  of \<open>-70\<close> the candidate is rejected, and the handle returned for the vanished path
  carries \<open>-1000\<close>.
\<close>

theorem zero_rssi_is_unreachable_witness:
  "candidate_step snapshot_zero ''/org/bluez/hci2/dev_X'' (- 70) ''/org/bluez/hci5/dev_X''
     (''/org/bluez/hci2/dev_X'', - 70) = (''/org/bluez/hci2/dev_X'', - 70) \<and>
   get_bluez_device (Inr snapshot_zero) ''/org/bluez/hci2/dev_X'' (Some (- 70)) =
     Some \<lparr>address = ''AA:BB:CC:DD:EE:FF'', name = ''X'',
       details = Some \<lparr>dict_path = Some ''/org/bluez/hci5/dev_X'',
         dict_props = Some \<lparr>Address = Some ''AA:BB:CC:DD:EE:FF'', Alias = Some ''X'',
           RSSI = Some 0, Connected = None, UUIDs = None, ManufacturerData = None\<rparr>\<rparr>,
       rssi = Some (- 1000), uuids = [], manufacturer_data = []\<rparr> \<and>
   UNREACHABLE_RSSI = - 1000"
proof -
  let ?d = "\<lparr>Address = Some ''AA:BB:CC:DD:EE:FF'', Alias = Some ''X'',
           RSSI = Some 0, Connected = None, UUIDs = None, ManufacturerData = None\<rparr>"
  let ?dev = "\<lparr>address = ''AA:BB:CC:DD:EE:FF'', name = ''X'',
       details = Some \<lparr>dict_path = Some ''/org/bluez/hci5/dev_X'', dict_props = Some ?d\<rparr>,
       rssi = Some (- 1000), uuids = [], manufacturer_data = []\<rparr>"
  have h1: "(- 70 :: int) \<noteq> UNREACHABLE_RSSI \<and>
    ''/org/bluez/hci5/dev_X'' \<noteq> ''/org/bluez/hci2/dev_X'' \<and>
    device_record snapshot_zero ''/org/bluez/hci5/dev_X'' = Some ?d \<and>
    (RSSI ?d = None \<or> RSSI ?d = Some 0)"
    by (simp add: UNREACHABLE_RSSI_def device_record_def snapshot_zero_def)
  have h2: "get_bluez_device (Inr snapshot_zero) ''/org/bluez/hci2/dev_X'' (Some (- 70)) =
      Some ?dev"
    by (simp add: resolver_defs snapshot_zero_def)
  from zero_rssi_is_unreachable [where rssi_to_beat = "- 70"
      and p = "''/org/bluez/hci5/dev_X''" and device_path = "''/org/bluez/hci2/dev_X''"
      and properties = snapshot_zero and device_rssi = "- 70"
      and best_path = "''/org/bluez/hci2/dev_X''" and r = "Some (- 70)" and dev = ?dev
      and d = ?d] h1
  have "candidate_step snapshot_zero ''/org/bluez/hci2/dev_X'' (- 70) ''/org/bluez/hci5/dev_X''
     (''/org/bluez/hci2/dev_X'', - 70) = (''/org/bluez/hci2/dev_X'', - 70)"
    by blast
  with h2 show ?thesis by (simp add: UNREACHABLE_RSSI_def)
qed


section \<open>The rounds of the retry loop\<close>

lemma freshen_details:
  assumes "freshen_ble_device manager d = Some f"
  shows "details f \<noteq> None"
proof (cases manager)
  case (Inl e)
  with assms show ?thesis
    by (simp add: freshen_ble_device_def get_bluez_device_def get_bluez_device_try_def
        split: option.splits)
next
  case (Inr properties)
  with assms obtain p where "get_bluez_device (Inr properties) p (rssi d) = Some f"
    by (auto simp: freshen_ble_device_def split: option.splits)
  from get_bluez_device_Some [OF this] obtain q v r where "make_device q v r = Inr f"
    by blast
  from make_device_Inr [OF this] show ?thesis by simp
qed

lemma has_changed_total:
  "details new \<noteq> None \<or> new = original \<Longrightarrow>
   \<exists>b. ble_device_has_changed original new = Inr b"
  by (auto simp: ble_device_has_changed_def device_path_of_def split: option.splits)

lemma choose_device_details:
  assumes "ble_device_callback P \<longrightarrow> details (callback_device env) \<noteq> None"
  shows "details (device (choose_device P env s)) \<noteq> None \<or>
         device (choose_device P env s) = device s"
  using assms freshen_details
  by (auto simp: choose_device_def Let_def split: option.splits)

lemma choose_device_frame:
  "create_client (choose_device P env s) = create_client s"
  "current_client (choose_device P env s) = current_client s"
  by (simp_all add: choose_device_def Let_def split: option.splits)

lemma prepare_client_ok:
  assumes "ble_device_callback P \<longrightarrow> details (callback_device env) \<noteq> None"
    and "client_ready s"
  shows "\<exists>s1. prepare_client P env s = Inr s1 \<and> current_client s1 \<noteq> None \<and>
           \<not> create_client s1"
proof -
  let ?s1 = "choose_device P env (s\<lparr>attempt := attempt s + 1\<rparr>)"
  from choose_device_details [OF assms(1), of "s\<lparr>attempt := attempt s + 1\<rparr>"]
  have "details (device ?s1) \<noteq> None \<or> device ?s1 = device s" by simp
  from has_changed_total [OF this]
  obtain b where b: "ble_device_has_changed (device s) (device ?s1) = Inr b" by blast
  show ?thesis
  proof (cases "create_client s")
    case True
    then show ?thesis
      by (simp add: prepare_client_def Let_def choose_device_frame build_client_def)
  next
    case False
    with assms(2) have "current_client s \<noteq> None" by (simp add: client_ready_def)
    with False b show ?thesis
      by (simp add: prepare_client_def Let_def choose_device_frame build_client_def)
  qed
qed

lemma attempt_step_unfold:
  assumes "ble_device_callback P \<longrightarrow> details (callback_device env) \<noteq> None"
    and "client_ready s"
  shows "\<exists>s2 c. current_client s2 = Some c \<and> \<not> create_client s2 \<and>
           timeouts s2 = timeouts s \<and> connect_errors s2 = connect_errors s \<and>
           transient_errors s2 = transient_errors s \<and> attempt s2 = Suc (attempt s) \<and>
           attempt_step P env s =
             (case connect_result env of
                None \<Rightarrow> Done (Connected c s2)
              | Some e \<Rightarrow> on_connect_error P e s2)"
proof -
  from prepare_client_ok [OF assms] obtain s1 c where s1: "prepare_client P env s = Inr s1"
    and c: "current_client s1 = Some c" and nc: "\<not> create_client s1"
    by auto
  let ?s2 = "add_event (Connect (client_id c) BLEAK_TIMEOUT (cached_services P \<noteq> None))
               (close_stale P env s1)"
  have cl: "current_client (close_stale P env s1) = Some c"
    using c by (simp add: close_stale_def add_event_def)
  have "current_client ?s2 = Some c" "\<not> create_client ?s2"
    using c nc by (simp_all add: close_stale_def add_event_def)
  moreover have "timeouts ?s2 = timeouts s \<and> connect_errors ?s2 = connect_errors s \<and>
           transient_errors ?s2 = transient_errors s \<and> attempt ?s2 = Suc (attempt s)"
    using prepare_client_counters [OF s1] close_stale_counters [of P env s1]
    by (simp add: add_event_def)
  moreover have "attempt_step P env s =
             (case connect_result env of
                None \<Rightarrow> Done (Connected c ?s2)
              | Some e \<Rightarrow> on_connect_error P e ?s2)"
    by (simp only: attempt_step_def s1 cl Let_def sum.case option.case)
  ultimately show ?thesis by blast
qed

lemma on_connect_error_Continue:
  assumes "caught e"
    and "timeouts (count_failure e s) + connect_errors (count_failure e s) < max_attempts P"
    and "transient_errors (count_failure e s) < MAX_TRANSIENT_ERRORS"
  shows "on_connect_error P e s = Continue (add_event (Sleep 0) (count_failure e s))"
  using assms by (simp add: on_connect_error_def raise_if_needed_def Let_def)

lemma count_failure_frame:
  "current_client (count_failure e s) = current_client s"
  "create_client (count_failure e s) = create_client s"
  "attempt (count_failure e s) = attempt s"
  by (simp_all add: count_failure_def add_event_def Let_def)

lemma establish_loop_Done:
  "attempt_step P (world (Suc (attempt s))) s = Done result \<Longrightarrow>
   establish_loop P world s = result"
  by (subst establish_loop.simps) simp

lemma establish_loop_Continue:
  "attempt_step P (world (Suc (attempt s))) s = Continue s' \<Longrightarrow>
   establish_loop P world s = establish_loop P world s'"
  by (subst establish_loop.simps) simp

lemma run_failures:
  fixes dt dc dr :: int
  assumes kind: "\<And>e s. K e \<Longrightarrow> caught e \<and>
        timeouts (count_failure e s) = timeouts s + dt \<and>
        connect_errors (count_failure e s) = connect_errors s + dc \<and>
        transient_errors (count_failure e s) = transient_errors s + dr"
    and nonneg: "0 \<le> dt" "0 \<le> dc" "0 \<le> dr"
    and ok: "callbacks_have_details P world"
  shows "client_ready s \<Longrightarrow>
    \<forall>i. attempt s < i \<and> i \<le> attempt s + n \<longrightarrow>
      (\<exists>e. connect_result (world i) = Some e \<and> K e) \<Longrightarrow>
    timeouts s + connect_errors s + int n * (dt + dc) < max_attempts P \<Longrightarrow>
    transient_errors s + int n * dr < MAX_TRANSIENT_ERRORS \<Longrightarrow>
    \<exists>s'. establish_loop P world s = establish_loop P world s' \<and>
      attempt s' = attempt s + n \<and> timeouts s' = timeouts s + int n * dt \<and>
      connect_errors s' = connect_errors s + int n * dc \<and>
      transient_errors s' = transient_errors s + int n * dr \<and> client_ready s'"
proof (induction n arbitrary: s)
  case 0
  then show ?case by auto
next
  case (Suc n)
  let ?env = "world (Suc (attempt s))"
  from Suc.prems(2) obtain e where e: "connect_result ?env = Some e" and K: "K e"
    by auto
  from ok have "ble_device_callback P \<longrightarrow> details (callback_device ?env) \<noteq> None"
    by (simp add: callbacks_have_details_def)
  from attempt_step_unfold [OF this Suc.prems(1)] e
  obtain s2 c where s2: "current_client s2 = Some c" "\<not> create_client s2"
      "timeouts s2 = timeouts s" "connect_errors s2 = connect_errors s"
      "transient_errors s2 = transient_errors s" "attempt s2 = Suc (attempt s)"
      "attempt_step P ?env s = on_connect_error P e s2"
    by auto
  let ?s3 = "count_failure e s2"
  from kind [OF K, of s2] s2 have k: "caught e" "timeouts ?s3 = timeouts s + dt"
      "connect_errors ?s3 = connect_errors s + dc"
      "transient_errors ?s3 = transient_errors s + dr"
    by simp_all
  have m1: "0 \<le> int n * (dt + dc)" and m2: "0 \<le> int n * dr"
    using nonneg by simp_all
  have e1: "int (Suc n) * (dt + dc) = dt + dc + int n * (dt + dc)"
    and e2: "int (Suc n) * dr = dr + int n * dr"
    and e3: "int (Suc n) * dt = dt + int n * dt"
    and e4: "int (Suc n) * dc = dc + int n * dc"
    by (simp_all add: algebra_simps)
  from Suc.prems(3,4) m1 m2 have b: "timeouts ?s3 + connect_errors ?s3 < max_attempts P"
      "transient_errors ?s3 < MAX_TRANSIENT_ERRORS"
    unfolding k e1 e2 by linarith+
  let ?s' = "add_event (Sleep 0) ?s3"
  from on_connect_error_Continue [OF k(1) b] s2(7)
  have "attempt_step P ?env s = Continue ?s'" by simp
  then have loop: "establish_loop P world s = establish_loop P world ?s'"
    by (rule establish_loop_Continue)
  have s': "attempt ?s' = Suc (attempt s)" "timeouts ?s' = timeouts s + dt"
      "connect_errors ?s' = connect_errors s + dc"
      "transient_errors ?s' = transient_errors s + dr" "client_ready ?s'"
    using k s2 by (simp_all add: add_event_def count_failure_frame client_ready_def)
  have "\<exists>s''. establish_loop P world ?s' = establish_loop P world s'' \<and>
      attempt s'' = attempt ?s' + n \<and> timeouts s'' = timeouts ?s' + int n * dt \<and>
      connect_errors s'' = connect_errors ?s' + int n * dc \<and>
      transient_errors s'' = transient_errors ?s' + int n * dr \<and> client_ready s''"
  proof (rule Suc.IH)
    show "client_ready ?s'" by (rule s'(5))
    show "\<forall>i. attempt ?s' < i \<and> i \<le> attempt ?s' + n \<longrightarrow>
      (\<exists>e. connect_result (world i) = Some e \<and> K e)"
      using Suc.prems(2) unfolding s'(1) by simp
    show "timeouts ?s' + connect_errors ?s' + int n * (dt + dc) < max_attempts P"
      using Suc.prems(3) unfolding s' e1 by linarith
    show "transient_errors ?s' + int n * dr < MAX_TRANSIENT_ERRORS"
      using Suc.prems(4) unfolding s' e2 by linarith
  qed
  then obtain s'' where "establish_loop P world ?s' = establish_loop P world s''"
      "attempt s'' = attempt ?s' + n" "timeouts s'' = timeouts ?s' + int n * dt"
      "connect_errors s'' = connect_errors ?s' + int n * dc"
      "transient_errors s'' = transient_errors ?s' + int n * dr" "client_ready s''"
    by blast
  with loop s' e3 e4 e2 show ?case
    by (intro exI [of _ s'']) simp
qed


lemma on_connect_error_Failed:
  assumes "caught e"
    and "\<not> (timeouts (count_failure e s) + connect_errors (count_failure e s) < max_attempts P \<and>
            transient_errors (count_failure e s) < MAX_TRANSIENT_ERRORS)"
  shows "\<exists>err. on_connect_error P e s = Done (Failed err (count_failure e s)) \<and>
           (exc_class e = TimeoutError \<longrightarrow> (\<exists>msg. err = BleakNotFoundError msg))"
  using assms by (auto simp: on_connect_error_def raise_if_needed_def Let_def)

lemma count_timeout:
  "exc_class e = TimeoutError \<Longrightarrow> caught e \<and>
     timeouts (count_failure e s) = timeouts s + 1 \<and>
     connect_errors (count_failure e s) = connect_errors s + 0 \<and>
     transient_errors (count_failure e s) = transient_errors s + 0"
  by (simp add: caught_def count_failure_def)

lemma count_transient:
  "transient_failure e \<Longrightarrow> caught e \<and>
     timeouts (count_failure e s) = timeouts s + 0 \<and>
     connect_errors (count_failure e s) = connect_errors s + 0 \<and>
     transient_errors (count_failure e s) = transient_errors s + 1"
  by (auto simp: transient_failure_def caught_def count_failure_def add_event_def Let_def
      is_BLEAK_EXCEPTION_def is_BleakError_def)

lemma count_connect_error:
  "is_BLEAK_EXCEPTION e \<Longrightarrow> \<not> any_error_in TRANSIENT_ERRORS (exc_str e) \<Longrightarrow>
     timeouts (count_failure e s) = timeouts s \<and>
     connect_errors (count_failure e s) = connect_errors s + 1 \<and>
     transient_errors (count_failure e s) = transient_errors s"
  by (auto simp: count_failure_def add_event_def Let_def
      is_BLEAK_EXCEPTION_def is_BleakError_def)

lemma initial_state_simps:
  "attempt (initial_state d) = 0" "timeouts (initial_state d) = 0"
  "connect_errors (initial_state d) = 0" "transient_errors (initial_state d) = 0"
  "client_ready (initial_state d)"
  by (simp_all add: initial_state_def client_ready_def)

lemma timeouts_keep_retrying:
  assumes "callbacks_have_details P world"
    and "\<forall>i. 1 \<le> i \<and> i \<le> n \<longrightarrow>
           (\<exists>e. connect_result (world i) = Some e \<and> exc_class e = TimeoutError)"
    and "int n < max_attempts P"
  shows "\<exists>s. establish_connection P d world = establish_loop P world s \<and>
           attempt s = n \<and> timeouts s = int n \<and> connect_errors s = 0 \<and>
           transient_errors s = 0 \<and> client_ready s"
proof -
  have "\<exists>s'. establish_loop P world (initial_state d) = establish_loop P world s' \<and>
      attempt s' = attempt (initial_state d) + n \<and>
      timeouts s' = timeouts (initial_state d) + int n * 1 \<and>
      connect_errors s' = connect_errors (initial_state d) + int n * 0 \<and>
      transient_errors s' = transient_errors (initial_state d) + int n * 0 \<and> client_ready s'"
  proof (rule run_failures [where K = "\<lambda>e. exc_class e = TimeoutError"])
    show "caught e \<and> timeouts (count_failure e s) = timeouts s + 1 \<and>
        connect_errors (count_failure e s) = connect_errors s + 0 \<and>
        transient_errors (count_failure e s) = transient_errors s + 0"
      if "exc_class e = TimeoutError" for e s
      using that by (rule count_timeout)
    show "callbacks_have_details P world" by (rule assms(1))
    show "client_ready (initial_state d)" by (rule initial_state_simps)
    show "\<forall>i. attempt (initial_state d) < i \<and> i \<le> attempt (initial_state d) + n \<longrightarrow>
      (\<exists>e. connect_result (world i) = Some e \<and> exc_class e = TimeoutError)"
      using assms(2) by (simp add: initial_state_simps)
    show "timeouts (initial_state d) + connect_errors (initial_state d) + int n * (1 + 0)
        < max_attempts P"
      using assms(3) by (simp add: initial_state_simps)
    show "transient_errors (initial_state d) + int n * 0 < MAX_TRANSIENT_ERRORS"
      by (simp add: initial_state_simps MAX_TRANSIENT_ERRORS_def)
  qed simp_all
  then show ?thesis
    by (simp add: establish_connection_def initial_state_simps)
qed

lemma attempt_after_run:
  assumes "callbacks_have_details P world" and "client_ready s"
  shows "\<exists>s2 c. timeouts s2 = timeouts s \<and> connect_errors s2 = connect_errors s \<and>
           transient_errors s2 = transient_errors s \<and> attempt s2 = Suc (attempt s) \<and>
           attempt_step P (world (Suc (attempt s))) s =
             (case connect_result (world (Suc (attempt s))) of
                None \<Rightarrow> Done (Connected c s2)
              | Some e \<Rightarrow> on_connect_error P e s2)"
proof -
  from assms(1)
  have "ble_device_callback P \<longrightarrow> details (callback_device (world (Suc (attempt s)))) \<noteq> None"
    by (simp add: callbacks_have_details_def)
  from attempt_step_unfold [OF this assms(2)] show ?thesis by blast
qed

lemma timeouts_then_connect:
  assumes "callbacks_have_details P world"
    and "\<forall>i. 1 \<le> i \<and> i \<le> n \<longrightarrow>
           (\<exists>e. connect_result (world i) = Some e \<and> exc_class e = TimeoutError)"
    and "int n < max_attempts P"
    and "connect_result (world (Suc n)) = None"
  shows "\<exists>c s. establish_connection P d world = Connected c s \<and>
           attempt s = Suc n \<and> timeouts s = int n \<and> connect_errors s = 0 \<and>
           transient_errors s = 0"
proof -
  from timeouts_keep_retrying [OF assms(1-3)]
  obtain s where s: "establish_connection P d world = establish_loop P world s"
      "attempt s = n" "timeouts s = int n" "connect_errors s = 0"
      "transient_errors s = 0" "client_ready s"
    by blast
  from attempt_after_run [OF assms(1) s(6)] s(2) assms(4)
  obtain s2 c where s2: "timeouts s2 = timeouts s" "connect_errors s2 = connect_errors s"
      "transient_errors s2 = transient_errors s" "attempt s2 = Suc n"
      "attempt_step P (world (Suc (attempt s))) s = Done (Connected c s2)"
    by auto
  from establish_loop_Done [where world = world and s = s, OF s2(5)] s s2
  show ?thesis by auto
qed

lemma timeouts_then_not_found:
  assumes "callbacks_have_details P world"
    and "\<forall>i. 1 \<le> i \<and> i \<le> n \<longrightarrow>
           (\<exists>e. connect_result (world i) = Some e \<and> exc_class e = TimeoutError)"
    and "0 < n" and "int n = max_attempts P"
  shows "\<exists>msg s. establish_connection P d world = Failed (BleakNotFoundError msg) s \<and>
           attempt s = n \<and> timeouts s = int n \<and> connect_errors s = 0 \<and>
           transient_errors s = 0 \<and> timeouts s + connect_errors s = max_attempts P"
proof -
  from assms(3) obtain m where n: "n = Suc m" by (cases n) auto
  have "\<forall>i. 1 \<le> i \<and> i \<le> m \<longrightarrow>
           (\<exists>e. connect_result (world i) = Some e \<and> exc_class e = TimeoutError)"
    using assms(2) n by simp
  moreover have "int m < max_attempts P" using assms(4) n by simp
  ultimately obtain s where s: "establish_connection P d world = establish_loop P world s"
      "attempt s = m" "timeouts s = int m" "connect_errors s = 0"
      "transient_errors s = 0" "client_ready s"
    using timeouts_keep_retrying [OF assms(1), of m d] by blast
  from assms(2) n obtain e where e: "connect_result (world (Suc m)) = Some e"
      "exc_class e = TimeoutError"
    by auto
  from attempt_after_run [OF assms(1) s(6)] s(2) e(1)
  obtain s2 where s2: "timeouts s2 = timeouts s" "connect_errors s2 = connect_errors s"
      "transient_errors s2 = transient_errors s" "attempt s2 = Suc m"
      "attempt_step P (world (Suc (attempt s))) s = on_connect_error P e s2"
    by auto
  let ?s3 = "count_failure e s2"
  from count_timeout [OF e(2), of s2] s s2
  have c: "caught e" "timeouts ?s3 = int n" "connect_errors ?s3 = 0" "transient_errors ?s3 = 0"
    by (simp_all add: n)
  then have "\<not> (timeouts ?s3 + connect_errors ?s3 < max_attempts P \<and>
            transient_errors ?s3 < MAX_TRANSIENT_ERRORS)"
    using assms(4) by simp
  from on_connect_error_Failed [OF c(1) this] e(2)
  obtain msg where "on_connect_error P e s2 = Done (Failed (BleakNotFoundError msg) ?s3)"
    by auto
  with s2(5) have "attempt_step P (world (Suc (attempt s))) s =
      Done (Failed (BleakNotFoundError msg) ?s3)"
    by simp
  then have "establish_loop P world s = Failed (BleakNotFoundError msg) ?s3"
    by (rule establish_loop_Done [where world = world and s = s])
  with s(1) c s2(4) assms(4) show ?thesis
    by (intro exI [of _ msg] exI [of _ ?s3]) (simp add: count_failure_frame n)
qed


lemma transients_keep_retrying:
  assumes "callbacks_have_details P world" and "0 < max_attempts P"
    and "\<forall>i. 1 \<le> i \<and> i \<le> n \<longrightarrow>
           (\<exists>e. connect_result (world i) = Some e \<and> transient_failure e)"
    and "int n < MAX_TRANSIENT_ERRORS"
  shows "\<exists>s. establish_connection P d world = establish_loop P world s \<and>
           attempt s = n \<and> timeouts s = 0 \<and> connect_errors s = 0 \<and>
           transient_errors s = int n \<and> client_ready s"
proof -
  have "\<exists>s'. establish_loop P world (initial_state d) = establish_loop P world s' \<and>
      attempt s' = attempt (initial_state d) + n \<and>
      timeouts s' = timeouts (initial_state d) + int n * 0 \<and>
      connect_errors s' = connect_errors (initial_state d) + int n * 0 \<and>
      transient_errors s' = transient_errors (initial_state d) + int n * 1 \<and> client_ready s'"
  proof (rule run_failures [where K = transient_failure])
    show "caught e \<and> timeouts (count_failure e s) = timeouts s + 0 \<and>
        connect_errors (count_failure e s) = connect_errors s + 0 \<and>
        transient_errors (count_failure e s) = transient_errors s + 1"
      if "transient_failure e" for e s
      using that by (rule count_transient)
    show "callbacks_have_details P world" by (rule assms(1))
    show "client_ready (initial_state d)" by (rule initial_state_simps)
    show "\<forall>i. attempt (initial_state d) < i \<and> i \<le> attempt (initial_state d) + n \<longrightarrow>
      (\<exists>e. connect_result (world i) = Some e \<and> transient_failure e)"
      using assms(3) by (simp add: initial_state_simps)
    show "timeouts (initial_state d) + connect_errors (initial_state d) + int n * (0 + 0)
        < max_attempts P"
      using assms(2) by (simp add: initial_state_simps)
    show "transient_errors (initial_state d) + int n * 1 < MAX_TRANSIENT_ERRORS"
      using assms(4) by (simp add: initial_state_simps)
  qed simp_all
  then show ?thesis
    by (simp add: establish_connection_def initial_state_simps)
qed

lemma transients_then_raise:
  assumes "callbacks_have_details P world" and "0 < max_attempts P"
    and "\<forall>i. 1 \<le> i \<and> i \<le> n \<longrightarrow>
           (\<exists>e. connect_result (world i) = Some e \<and> transient_failure e)"
    and "int n = MAX_TRANSIENT_ERRORS"
  shows "\<exists>err s. establish_connection P d world = Failed err s \<and>
           attempt s = n \<and> timeouts s = 0 \<and> connect_errors s = 0 \<and>
           transient_errors s = MAX_TRANSIENT_ERRORS"
proof -
  from assms(4) obtain m where n: "n = Suc m"
    by (cases n) (auto simp: MAX_TRANSIENT_ERRORS_def)
  have "\<forall>i. 1 \<le> i \<and> i \<le> m \<longrightarrow>
           (\<exists>e. connect_result (world i) = Some e \<and> transient_failure e)"
    using assms(3) n by simp
  moreover have "int m < MAX_TRANSIENT_ERRORS" using assms(4) n by simp
  ultimately obtain s where s: "establish_connection P d world = establish_loop P world s"
      "attempt s = m" "timeouts s = 0" "connect_errors s = 0"
      "transient_errors s = int m" "client_ready s"
    using transients_keep_retrying [OF assms(1,2), of m d] by blast
  from assms(3) n obtain e where e: "connect_result (world (Suc m)) = Some e"
      "transient_failure e"
    by auto
  from attempt_after_run [OF assms(1) s(6)] s(2) e(1)
  obtain s2 where s2: "timeouts s2 = timeouts s" "connect_errors s2 = connect_errors s"
      "transient_errors s2 = transient_errors s" "attempt s2 = Suc m"
      "attempt_step P (world (Suc (attempt s))) s = on_connect_error P e s2"
    by auto
  let ?s3 = "count_failure e s2"
  from count_transient [OF e(2), of s2] s s2
  have c: "caught e" "timeouts ?s3 = 0" "connect_errors ?s3 = 0"
      "transient_errors ?s3 = int n"
    by (simp_all add: n)
  then have "\<not> (timeouts ?s3 + connect_errors ?s3 < max_attempts P \<and>
            transient_errors ?s3 < MAX_TRANSIENT_ERRORS)"
    using assms(4) by simp
  from on_connect_error_Failed [OF c(1) this]
  obtain err where "on_connect_error P e s2 = Done (Failed err ?s3)"
    by auto
  with s2(5) have "attempt_step P (world (Suc (attempt s))) s = Done (Failed err ?s3)"
    by simp
  then have "establish_loop P world s = Failed err ?s3"
    by (rule establish_loop_Done [where world = world and s = s])
  with s(1) c s2(4) assms(4) show ?thesis
    by (intro exI [of _ err] exI [of _ ?s3]) (simp add: count_failure_frame n)
qed

lemma on_connect_error_budget_iff:
  assumes "caught e"
  shows "if timeouts (count_failure e s) + connect_errors (count_failure e s) < max_attempts P \<and>
            transient_errors (count_failure e s) < MAX_TRANSIENT_ERRORS
         then on_connect_error P e s = Continue (add_event (Sleep 0) (count_failure e s))
         else \<exists>err. on_connect_error P e s = Done (Failed err (count_failure e s))"
  using on_connect_error_Continue [OF assms, of s P] on_connect_error_Failed [OF assms, of s P]
  by auto


section \<open>Claims about the retry loop\<close>

text \<open>
  C1. After a caught failure has been counted, the round goes on to the next attempt
  exactly when \<^verbatim>\<open>timeouts + connect_errors < max_attempts\<close> and
  \<^verbatim>\<open>transient_errors < 9\<close>, and raises a terminal error otherwise. When the attempts
  \<open>1\<close> to \<open>n\<close> time out: for \<open>n < max_attempts\<close> the loop is still running after attempt
  \<open>n\<close>, with \<open>n\<close> timeouts counted, and returns the client at attempt \<open>n + 1\<close> if that one
  connects; for \<open>n = max_attempts\<close> it raises \<^verbatim>\<open>BleakNotFoundError\<close> at attempt \<open>n\<close>, where
  \<^verbatim>\<open>timeouts + connect_errors = max_attempts\<close>.
\<close>

theorem timeouts_reach_budget:
  assumes "callbacks_have_details P world"
    and "\<forall>i. 1 \<le> i \<and> i \<le> n \<longrightarrow>
           (\<exists>e. connect_result (world i) = Some e \<and> exc_class e = TimeoutError)"
  shows "(caught e \<longrightarrow>
      (if timeouts (count_failure e s) + connect_errors (count_failure e s) < max_attempts P \<and>
          transient_errors (count_failure e s) < 9
       then on_connect_error P e s = Continue (add_event (Sleep 0) (count_failure e s))
       else \<exists>err. on_connect_error P e s = Done (Failed err (count_failure e s)))) \<and>
    (int n < max_attempts P \<longrightarrow>
       (\<exists>s. establish_connection P d world = establish_loop P world s \<and>
          attempt s = n \<and> timeouts s = int n \<and> connect_errors s = 0 \<and>
          transient_errors s = 0) \<and>
       (connect_result (world (Suc n)) = None \<longrightarrow>
          (\<exists>c s. establish_connection P d world = Connected c s \<and>
             attempt s = Suc n \<and> timeouts s = int n \<and> connect_errors s = 0 \<and>
             transient_errors s = 0))) \<and>
    (0 < n \<and> int n = max_attempts P \<longrightarrow>
       (\<exists>msg s. establish_connection P d world = Failed (BleakNotFoundError msg) s \<and>
          attempt s = n \<and> timeouts s = int n \<and> connect_errors s = 0 \<and>
          transient_errors s = 0 \<and> timeouts s + connect_errors s = max_attempts P))"
proof (intro conjI impI)
  assume "caught e"
  from on_connect_error_budget_iff [OF this, of s P]
  show "if timeouts (count_failure e s) + connect_errors (count_failure e s) < max_attempts P \<and>
          transient_errors (count_failure e s) < 9
       then on_connect_error P e s = Continue (add_event (Sleep 0) (count_failure e s))
       else \<exists>err. on_connect_error P e s = Done (Failed err (count_failure e s))"
    by (simp add: MAX_TRANSIENT_ERRORS_def)
next
  assume "int n < max_attempts P"
  from timeouts_keep_retrying [OF assms this, of d]
  show "\<exists>s. establish_connection P d world = establish_loop P world s \<and>
          attempt s = n \<and> timeouts s = int n \<and> connect_errors s = 0 \<and>
          transient_errors s = 0"
    by blast
next
  assume "int n < max_attempts P" and "connect_result (world (Suc n)) = None"
  then show "\<exists>c s. establish_connection P d world = Connected c s \<and>
             attempt s = Suc n \<and> timeouts s = int n \<and> connect_errors s = 0 \<and>
             transient_errors s = 0"
    by (rule timeouts_then_connect [OF assms])
next
  assume "0 < n \<and> int n = max_attempts P"
  then have "0 < n" and "int n = max_attempts P" by simp_all
  then show "\<exists>msg s. establish_connection P d world = Failed (BleakNotFoundError msg) s \<and>
          attempt s = n \<and> timeouts s = int n \<and> connect_errors s = 0 \<and>
          transient_errors s = 0 \<and> timeouts s + connect_errors s = max_attempts P"
    by (rule timeouts_then_not_found [OF assms])
qed


text \<open>
  The scenario of the specification: \<open>max_attempts = 4\<close>, the attempts 1 to 3 time out
  and attempt 4 connects, so the client is returned with the attempt counter at 4 and 3
  timeouts. When attempt 4 times out too, \<^verbatim>\<open>BleakNotFoundError\<close> is raised there.
\<close>

theorem timeouts_reach_budget_witness:
  "callbacks_have_details params_default
     (world_of (\<lambda>i. if i \<le> 3 then Some (Exc TimeoutError []) else None)) \<and>
   (\<exists>c s. establish_connection params_default device_x
       (world_of (\<lambda>i. if i \<le> 3 then Some (Exc TimeoutError []) else None)) = Connected c s \<and>
      attempt s = 4 \<and> timeouts s = 3 \<and> connect_errors s = 0 \<and> transient_errors s = 0) \<and>
   (\<exists>msg s. establish_connection params_default device_x
       (world_of (\<lambda>i. Some (Exc TimeoutError []))) = Failed (BleakNotFoundError msg) s \<and>
      attempt s = 4 \<and> timeouts s + connect_errors s = max_attempts params_default)"
proof -
  let ?w = "world_of (\<lambda>i. if i \<le> 3 then Some (Exc TimeoutError []) else None)"
  let ?v = "world_of (\<lambda>i. Some (Exc TimeoutError []))"
  have h1: "callbacks_have_details params_default ?w"
    and h2: "callbacks_have_details params_default ?v"
    by (simp_all add: callbacks_have_details_def params_default_def)
  have w: "\<forall>i. 1 \<le> i \<and> i \<le> 3 \<longrightarrow>
      (\<exists>e. connect_result (?w i) = Some e \<and> exc_class e = TimeoutError)"
    and v: "\<forall>i. 1 \<le> i \<and> i \<le> 4 \<longrightarrow>
      (\<exists>e. connect_result (?v i) = Some e \<and> exc_class e = TimeoutError)"
    by (simp_all add: world_of_def)
  have m: "max_attempts params_default = 4"
    by (simp add: params_default_def MAX_CONNECT_ATTEMPTS_def)
  have ok: "connect_result (?w (Suc 3)) = None"
    by (simp add: world_of_def)
  from timeouts_reach_budget [OF h1 w, where d = device_x and e = "Exc TimeoutError []"
      and s = "initial_state device_x"] m ok
  have "\<exists>c s. establish_connection params_default device_x ?w = Connected c s \<and>
      attempt s = 4 \<and> timeouts s = 3 \<and> connect_errors s = 0 \<and> transient_errors s = 0"
    by simp
  moreover from timeouts_reach_budget [OF h2 v, where d = device_x
      and e = "Exc TimeoutError []" and s = "initial_state device_x"] m
  have "\<exists>msg s. establish_connection params_default device_x ?v =
        Failed (BleakNotFoundError msg) s \<and>
      attempt s = 4 \<and> timeouts s + connect_errors s = max_attempts params_default"
    by auto
  ultimately show ?thesis using h1 by blast
qed

text \<open>
  C3. A \<^verbatim>\<open>BrokenPipeError\<close>, an \<^verbatim>\<open>EOFError\<close> and a transport or attribute error whose
  text holds a transient bus error code add one to the transient counter and leave the
  connect-error counter alone; every other transport or attribute error adds one to the
  connect-error counter and leaves the transient counter alone. With \<open>max_attempts\<close>
  positive, a run whose first \<open>n\<close> attempts fail transiently is still in the loop after
  them when \<open>n < 9\<close>, and raises at the ninth.
\<close>

theorem transient_failures_counted:
  assumes "callbacks_have_details P world" and "0 < max_attempts P"
    and "\<forall>i. 1 \<le> i \<and> i \<le> n \<longrightarrow>
           (\<exists>e. connect_result (world i) = Some e \<and> transient_failure e)"
  shows "(transient_failure e \<longrightarrow>
       transient_errors (count_failure e s) = transient_errors s + 1 \<and>
       connect_errors (count_failure e s) = connect_errors s \<and>
       timeouts (count_failure e s) = timeouts s) \<and>
    (is_BLEAK_EXCEPTION e \<and> \<not> any_error_in TRANSIENT_ERRORS (exc_str e) \<longrightarrow>
       connect_errors (count_failure e s) = connect_errors s + 1 \<and>
       transient_errors (count_failure e s) = transient_errors s \<and>
       timeouts (count_failure e s) = timeouts s) \<and>
    (int n < MAX_TRANSIENT_ERRORS \<longrightarrow>
       (\<exists>s. establish_connection P d world = establish_loop P world s \<and>
          attempt s = n \<and> transient_errors s = int n \<and> connect_errors s = 0 \<and>
          timeouts s = 0)) \<and>
    (int n = MAX_TRANSIENT_ERRORS \<longrightarrow>
       (\<exists>err s. establish_connection P d world = Failed err s \<and>
          attempt s = n \<and> transient_errors s = MAX_TRANSIENT_ERRORS \<and>
          connect_errors s = 0 \<and> timeouts s = 0)) \<and>
    MAX_TRANSIENT_ERRORS = 9"
proof (intro conjI impI)
  assume "transient_failure e"
  from count_transient [OF this, of s]
  show "transient_errors (count_failure e s) = transient_errors s + 1"
    and "connect_errors (count_failure e s) = connect_errors s"
    and "timeouts (count_failure e s) = timeouts s"
    by simp_all
next
  assume "is_BLEAK_EXCEPTION e \<and> \<not> any_error_in TRANSIENT_ERRORS (exc_str e)"
  then have "is_BLEAK_EXCEPTION e" and "\<not> any_error_in TRANSIENT_ERRORS (exc_str e)"
    by simp_all
  from count_connect_error [OF this, of s]
  show "connect_errors (count_failure e s) = connect_errors s + 1"
    and "transient_errors (count_failure e s) = transient_errors s"
    and "timeouts (count_failure e s) = timeouts s"
    by simp_all
next
  assume "int n < MAX_TRANSIENT_ERRORS"
  from transients_keep_retrying [OF assms this, of d]
  show "\<exists>s. establish_connection P d world = establish_loop P world s \<and>
          attempt s = n \<and> transient_errors s = int n \<and> connect_errors s = 0 \<and>
          timeouts s = 0"
    by blast
next
  assume "int n = MAX_TRANSIENT_ERRORS"
  from transients_then_raise [OF assms this, of d]
  show "\<exists>err s. establish_connection P d world = Failed err s \<and>
          attempt s = n \<and> transient_errors s = MAX_TRANSIENT_ERRORS \<and>
          connect_errors s = 0 \<and> timeouts s = 0"
    by blast
next
  show "MAX_TRANSIENT_ERRORS = 9" by (simp add: MAX_TRANSIENT_ERRORS_def)
qed

text \<open>
  With \<open>max_attempts = 4\<close>, a broken pipe at every even attempt and a bus error with the
  text \<^verbatim>\<open>le-connection-abort-by-local\<close> at every odd one: the run raises at attempt 9,
  with 9 transient errors and no connect error counted.
\<close>

theorem transient_failures_counted_witness:
  "transient_failure (Exc BrokenPipeError ''[Errno 32] Broken pipe'') \<and>
   transient_failure
     (Exc BleakDBusError ''[org.bluez.Error.Failed] le-connection-abort-by-local'') \<and>
   0 < max_attempts params_default \<and>
   (\<exists>err s. establish_connection params_default device_x
       (world_of (\<lambda>i. if even i then Some (Exc BrokenPipeError ''[Errno 32] Broken pipe'')
          else Some (Exc BleakDBusError
                 ''[org.bluez.Error.Failed] le-connection-abort-by-local''))) =
       Failed err s \<and>
      attempt s = 9 \<and> transient_errors s = 9 \<and> connect_errors s = 0 \<and> timeouts s = 0)"
proof -
  let ?p = "Exc BrokenPipeError ''[Errno 32] Broken pipe''"
  let ?b = "Exc BleakDBusError ''[org.bluez.Error.Failed] le-connection-abort-by-local''"
  let ?w = "world_of (\<lambda>i. if even i then Some ?p else Some ?b)"
  have p: "transient_failure ?p"
    by (simp add: transient_failure_def)
  have b: "transient_failure ?b"
    by (simp add: transient_failure_def is_BLEAK_EXCEPTION_def is_BleakError_def
        any_error_in_def TRANSIENT_ERRORS_def)
  have h1: "callbacks_have_details params_default ?w"
    by (simp add: callbacks_have_details_def params_default_def)
  have h2: "0 < max_attempts params_default"
    by (simp add: params_default_def MAX_CONNECT_ATTEMPTS_def)
  have h3: "\<forall>i. 1 \<le> i \<and> i \<le> 9 \<longrightarrow>
      (\<exists>e. connect_result (?w i) = Some e \<and> transient_failure e)"
    using p b by (simp add: world_of_def)
  from transient_failures_counted [OF h1 h2 h3, where d = device_x and e = ?p
      and s = "initial_state device_x"]
  have "\<exists>err s. establish_connection params_default device_x ?w = Failed err s \<and>
      attempt s = 9 \<and> transient_errors s = 9 \<and> connect_errors s = 0 \<and> timeouts s = 0"
    by (simp add: MAX_TRANSIENT_ERRORS_def)
  with p b h2 show ?thesis by blast
qed


lemma freshen_empty: "freshen_ble_device (Inr Map.empty) device_x = None"
  by (simp add: freshen_ble_device_def device_x_def resolver_defs)

lemma not_connected_empty: "\<not> device_is_connected (Inr Map.empty) device_x"
  by (simp add: device_is_connected_def device_path_of_def device_x_def device_record_def)

lemmas round_defs =
  attempt_step_def prepare_client_def choose_device_def build_client_def new_client_def
  close_stale_def add_event_def on_connect_error_def count_failure_def
  raise_if_needed_def caught_def initial_state_def params_default_def world_of_def
  freshen_empty not_connected_empty MAX_CONNECT_ATTEMPTS_def MAX_TRANSIENT_ERRORS_def

text \<open>
  C7. In a round that fails and goes on to the next attempt, what follows the call of
  \<^verbatim>\<open>connect\<close> is the sleep of \<open>0.25\<close> seconds exactly when the failure is an
  \<^verbatim>\<open>EOFError\<close> or a \<^verbatim>\<open>BleakDBusError\<close>, and then the \<^verbatim>\<open>asyncio.sleep(0)\<close> that ends
  every such round; after a timeout, a broken pipe or a transport error that is no bus
  error only the latter.
\<close>

theorem backoff_sleep:
  assumes "attempt_step P env s = Continue s'"
  shows "\<exists>e (c :: client) before. connect_result env = Some e \<and> caught e \<and>
     trace s' = before @ [Connect (client_id c) BLEAK_TIMEOUT (cached_services P \<noteq> None)] @
       (if exc_class e = EOFError \<or> exc_class e = BleakDBusError then [Sleep 0.25] else []) @
       [Sleep 0]"
proof -
  from assms obtain s1 c e where s1: "prepare_client P env s = Inr s1"
    and c: "current_client (close_stale P env s1) = Some c"
    and e: "connect_result env = Some e"
    and step: "on_connect_error P e
        (add_event (Connect (client_id c) BLEAK_TIMEOUT (cached_services P \<noteq> None))
           (close_stale P env s1)) = Continue s'"
    by (simp add: attempt_step_def Let_def split: sum.splits option.splits)
  let ?s = "add_event (Connect (client_id c) BLEAK_TIMEOUT (cached_services P \<noteq> None))
           (close_stale P env s1)"
  from step have caught: "caught e"
    by (auto simp: on_connect_error_def split: if_splits)
  with step have s': "s' = add_event (Sleep 0) (count_failure e ?s)"
    by (auto simp: on_connect_error_def Let_def split: option.splits)
  have "trace (count_failure e ?s) = trace ?s @
       (if exc_class e = EOFError \<or> exc_class e = BleakDBusError then [Sleep 0.25] else [])"
    by (simp add: count_failure_def add_event_def Let_def BLEAK_DBUS_BACKOFF_TIME_def)
  then have tr: "trace s' = trace (close_stale P env s1) @
       [Connect (client_id c) BLEAK_TIMEOUT (cached_services P \<noteq> None)] @
       (if exc_class e = EOFError \<or> exc_class e = BleakDBusError then [Sleep 0.25] else []) @
       [Sleep 0]"
    unfolding s' by (simp add: add_event_def)
  from e caught tr show ?thesis by blast
qed

text \<open>
  The first round of a run whose \<^verbatim>\<open>connect\<close> ends with \<^verbatim>\<open>EOFError\<close>: the client is
  built, \<^verbatim>\<open>connect\<close> is called, and the two sleeps follow. With a timeout instead, only
  the \<^verbatim>\<open>sleep(0)\<close> follows.
\<close>

theorem backoff_sleep_witness:
  "(\<exists>s'. attempt_step params_default (world_of (\<lambda>i. Some (Exc EOFError ''eof'')) 1)
           (initial_state device_x) = Continue s' \<and>
      trace s' = [Construct_client 0 device_x, Connect 0 BLEAK_TIMEOUT False,
                  Sleep 0.25, Sleep 0] \<and>
      (\<exists>e (c :: client) before.
         connect_result (world_of (\<lambda>i. Some (Exc EOFError ''eof'')) 1) = Some e \<and> caught e \<and>
         trace s' = before @
           [Connect (client_id c) BLEAK_TIMEOUT (cached_services params_default \<noteq> None)] @
           (if exc_class e = EOFError \<or> exc_class e = BleakDBusError then [Sleep 0.25]
            else []) @ [Sleep 0])) \<and>
   (\<exists>s'. attempt_step params_default (world_of (\<lambda>i. Some (Exc TimeoutError [])) 1)
           (initial_state device_x) = Continue s' \<and>
      trace s' = [Construct_client 0 device_x, Connect 0 BLEAK_TIMEOUT False, Sleep 0])"
proof -
  let ?w = "world_of (\<lambda>i. Some (Exc EOFError ''eof'')) 1"
  have "\<exists>s'. attempt_step params_default ?w (initial_state device_x) = Continue s' \<and>
      trace s' = [Construct_client 0 device_x, Connect 0 BLEAK_TIMEOUT False,
                  Sleep 0.25, Sleep 0]"
    by (simp add: round_defs BLEAK_DBUS_BACKOFF_TIME_def)
  then obtain s' where s': "attempt_step params_default ?w (initial_state device_x) = Continue s'"
      "trace s' = [Construct_client 0 device_x, Connect 0 BLEAK_TIMEOUT False,
                  Sleep 0.25, Sleep 0]"
    by blast
  from backoff_sleep [OF s'(1)] s'
  have "\<exists>s'. attempt_step params_default ?w (initial_state device_x) = Continue s' \<and>
      trace s' = [Construct_client 0 device_x, Connect 0 BLEAK_TIMEOUT False,
                  Sleep 0.25, Sleep 0] \<and>
      (\<exists>e (c :: client) before.
         connect_result ?w = Some e \<and> caught e \<and>
         trace s' = before @
           [Connect (client_id c) BLEAK_TIMEOUT (cached_services params_default \<noteq> None)] @
           (if exc_class e = EOFError \<or> exc_class e = BleakDBusError then [Sleep 0.25]
            else []) @ [Sleep 0])"
    by blast
  moreover
  have "\<exists>s'. attempt_step params_default (world_of (\<lambda>i. Some (Exc TimeoutError [])) 1)
           (initial_state device_x) = Continue s' \<and>
      trace s' = [Construct_client 0 device_x, Connect 0 BLEAK_TIMEOUT False, Sleep 0]"
    by (simp add: round_defs)
  ultimately show ?thesis by blast
qed

lemma has_changed_iff:
  "ble_device_has_changed original new = Inr True \<longleftrightarrow>
     address original \<noteq> address new \<or>
     (\<exists>p q. device_path_of original = Some p \<and> device_path_of new = Some q \<and> p \<noteq> q)"
  by (auto simp: ble_device_has_changed_def device_path_of_def split: option.splits)

lemma has_changed_unchanged:
  "address original = address new \<Longrightarrow> device_path_of original = device_path_of new \<Longrightarrow>
   ble_device_has_changed original new = Inr False"
  by (auto simp: ble_device_has_changed_def device_path_of_def split: option.splits)

lemma prepare_client_built_or_reused:
  assumes "prepare_client P env s = Inr s'"
  shows "\<not> create_client s' \<and>
    (if create_client s \<or> address (device s) \<noteq> address (device s') \<or>
        (\<exists>p q. device_path_of (device s) = Some p \<and> device_path_of (device s') = Some q \<and>
           p \<noteq> q)
     then current_client s' = Some (new_client P (s'\<lparr>clients_built := clients_built s\<rparr>)) \<and>
          clients_built s' = Suc (clients_built s)
     else current_client s' = current_client s \<and> clients_built s' = clients_built s \<and>
          trace s' = trace s)"
proof -
  let ?s1 = "choose_device P env (s\<lparr>attempt := attempt s + 1\<rparr>)"
  have frame: "create_client ?s1 = create_client s" "current_client ?s1 = current_client s"
      "clients_built ?s1 = clients_built s" "trace ?s1 = trace s"
    by (simp_all add: choose_device_def Let_def split: option.splits)
  show ?thesis
  proof (cases "create_client s")
    case True
    with assms frame have "s' = build_client P (?s1\<lparr>create_client := True\<rparr>)"
      by (simp add: prepare_client_def Let_def)
    with True frame show ?thesis
      by (simp add: build_client_def new_client_def)
  next
    case False
    with assms frame obtain b where b: "ble_device_has_changed (device s) (device ?s1) = Inr b"
      and s': "s' = build_client P (?s1\<lparr>create_client := b\<rparr>)"
      by (auto simp: prepare_client_def Let_def split: sum.splits)
    have dev: "device s' = device ?s1"
      unfolding s' by (simp add: build_client_def)
    from b has_changed_iff [of "device s" "device ?s1"]
    have "b \<longleftrightarrow> address (device s) \<noteq> address (device s') \<or>
        (\<exists>p q. device_path_of (device s) = Some p \<and> device_path_of (device s') = Some q \<and>
           p \<noteq> q)"
      unfolding dev by simp
    with False frame show ?thesis
      unfolding s' by (auto simp: build_client_def new_client_def)
  qed
qed

lemma on_connect_error_Continue_frame:
  assumes "on_connect_error P e s = Continue s'"
  shows "create_client s' = create_client s \<and> current_client s' = current_client s \<and>
         clients_built s' = clients_built s"
proof -
  from assms have "s' = add_event (Sleep 0) (count_failure e s)"
    by (auto simp: on_connect_error_def Let_def split: if_splits option.splits)
  then show ?thesis
    by (simp add: add_event_def count_failure_def Let_def)
qed

lemma attempt_step_Continue_frame:
  assumes "prepare_client P env s = Inr s'" and "attempt_step P env s = Continue s''"
  shows "create_client s'' = create_client s' \<and> current_client s'' = current_client s' \<and>
         clients_built s'' = clients_built s' \<and> current_client s'' \<noteq> None"
proof -
  from assms obtain ev e c where c: "current_client (close_stale P env s') = Some c"
    and step: "on_connect_error P e (add_event ev (close_stale P env s')) = Continue s''"
    by (auto simp: attempt_step_def Let_def split: option.splits)
  from on_connect_error_Continue_frame [OF step] c show ?thesis
    by (simp add: add_event_def close_stale_def split: if_splits)
qed

text \<open>
  C4. A run holds one client at a time, in \<open>current_client\<close>; a round either keeps it or
  replaces it with a newly built one. The run starts with \<^verbatim>\<open>create_client\<close> set, and
  every round leaves it unset. A round builds a client when \<^verbatim>\<open>create_client\<close> is set,
  which is the first round, or when the device of this round differs from the previous
  one in its address, or both carry a backend path and the paths differ; otherwise it
  keeps the client it has and builds none. A round that goes on to the next attempt
  hands that client over unchanged.
\<close>

theorem client_built_or_reused:
  assumes "prepare_client P env s = Inr s'"
  shows "create_client (initial_state d) \<and> \<not> create_client s' \<and>
    (if create_client s \<or> address (device s) \<noteq> address (device s') \<or>
        (\<exists>p q. device_path_of (device s) = Some p \<and> device_path_of (device s') = Some q \<and>
           p \<noteq> q)
     then current_client s' = Some (new_client P (s'\<lparr>clients_built := clients_built s\<rparr>)) \<and>
          clients_built s' = Suc (clients_built s)
     else current_client s' = current_client s \<and> clients_built s' = clients_built s \<and>
          trace s' = trace s) \<and>
    (\<forall>s''. attempt_step P env s = Continue s'' \<longrightarrow>
       \<not> create_client s'' \<and> current_client s'' = current_client s' \<and>
       clients_built s'' = clients_built s' \<and> current_client s'' \<noteq> None)"
proof -
  have a: "create_client (initial_state d)"
    by (simp add: initial_state_def)
  note b = prepare_client_built_or_reused [OF assms]
  have c: "\<forall>s''. attempt_step P env s = Continue s'' \<longrightarrow>
       \<not> create_client s'' \<and> current_client s'' = current_client s' \<and>
       clients_built s'' = clients_built s' \<and> current_client s'' \<noteq> None"
  proof (intro allI impI)
    fix s''
    assume "attempt_step P env s = Continue s''"
    from attempt_step_Continue_frame [OF assms this]
    have f: "create_client s'' = create_client s'" "current_client s'' = current_client s'"
        "clients_built s'' = clients_built s'" "current_client s'' \<noteq> None"
      by blast+
    from b have "\<not> create_client s'" by (rule conjunct1)
    then have "\<not> create_client s''" by (simp add: f(1))
    with f(2-4) show "\<not> create_client s'' \<and> current_client s'' = current_client s' \<and>
       clients_built s'' = clients_built s' \<and> current_client s'' \<noteq> None"
      by (intro conjI)
  qed
  show ?thesis
    by (insert a b [THEN conjunct1] b [THEN conjunct2] c, intro conjI, assumption+)
qed

text \<open>
  Two rounds for the same device: the first builds client \<open>0\<close>, the second, with address
  and path unchanged, keeps it and builds none.
\<close>

theorem client_built_or_reused_witness:
  "\<exists>s1 s2.
     prepare_client params_default (world_of (\<lambda>i. None) 1) (initial_state device_x) = Inr s1 \<and>
     current_client s1 = Some client_x \<and> client_id client_x = 0 \<and> clients_built s1 = 1 \<and>
     \<not> create_client s1 \<and> device s1 = device_x \<and>
     prepare_client params_default (world_of (\<lambda>i. None) 2) s1 = Inr s2 \<and>
     device s2 = device_x \<and>
     current_client s2 = Some client_x \<and> clients_built s2 = 1 \<and> trace s2 = trace s1"
proof -
  define s1 where "s1 = build_client params_default ((initial_state device_x)\<lparr>attempt := 1\<rparr>)"
  define s2 where "s2 = s1\<lparr>attempt := 2\<rparr>"
  have s1: "create_client s1 = False" "device s1 = device_x" "attempt s1 = 1"
      "current_client s1 = Some client_x" "clients_built s1 = 1"
    by (simp_all add: s1_def build_client_def initial_state_def new_client_def client_x_def)
  have p1: "prepare_client params_default (world_of (\<lambda>i. None) 1) (initial_state device_x) =
      Inr s1"
    by (simp add: s1_def prepare_client_def choose_device_def world_of_def freshen_empty
        initial_state_def params_default_def)
  have "choose_device params_default (world_of (\<lambda>i. None) 2) (s1\<lparr>attempt := attempt s1 + 1\<rparr>) =
      s2"
    by (simp add: choose_device_def world_of_def params_default_def s1 freshen_empty s2_def)
  moreover have "ble_device_has_changed device_x device_x = Inr False"
    by (rule has_changed_unchanged) simp_all
  ultimately have p2: "prepare_client params_default (world_of (\<lambda>i. None) 2) s1 = Inr s2"
    by (simp add: prepare_client_def s1 s2_def build_client_def)
  have d2: "device s2 = device_x" by (simp add: s2_def s1)
  from client_built_or_reused [OF p1, of device_x] s1
  have a: "current_client s1 = Some client_x \<and> clients_built s1 = 1 \<and> \<not> create_client s1"
    by simp
  from client_built_or_reused [OF p2, of device_x] s1 d2
  have b: "current_client s2 = Some client_x \<and> clients_built s2 = 1 \<and> trace s2 = trace s1"
    by simp
  have "client_id client_x = 0"
    by (simp add: client_x_def new_client_def initial_state_def)
  with p1 p2 a b s1 d2 show ?thesis by blast
qed



section \<open>Claims about the caching client\<close>

text \<open>
  C6, as the code has it. When the client has no usable service cache and the
  superclass's \<^verbatim>\<open>get_services\<close> raises, \<^verbatim>\<open>disconnect\<close> is called on the client before
  anything leaves the method, and the method always ends with an exception, never with a
  result. When that \<^verbatim>\<open>disconnect\<close> returns, the client is disconnected and the
  exception is the original one; when \<^verbatim>\<open>disconnect\<close> itself raises, its exception
  leaves the method in place of the original.
\<close>

theorem get_services_failure:
  assumes "\<not> has_service_cache pf c" and "super_get_services = Inl e"
  shows "(\<exists>c' e'. get_services pf super_get_services super_disconnect c =
            (c', [Super_get_services (client_id c), Disconnect (client_id c)], Inl e')) \<and>
         (super_disconnect = None \<longrightarrow>
            get_services pf super_get_services super_disconnect c =
              (c\<lparr>client_is_connected := False\<rparr>,
               [Super_get_services (client_id c), Disconnect (client_id c)], Inl e)) \<and>
         (\<forall>e2. super_disconnect = Some e2 \<longrightarrow>
            get_services pf super_get_services super_disconnect c =
              (c, [Super_get_services (client_id c), Disconnect (client_id c)], Inl e2))"
  using assms by (auto simp: get_services_def split: option.splits)

text \<open>
  A connected client without cached services whose service discovery fails and whose
  \<^verbatim>\<open>disconnect\<close> returns: it ends disconnected, and the discovery's exception is raised.
\<close>

theorem get_services_failure_witness:
  "\<not> has_service_cache (platform_of params_default) (client_x\<lparr>client_is_connected := True\<rparr>) \<and>
   get_services (platform_of params_default)
     (Inl (Exc BleakError ''failed to discover services'')) None
     (client_x\<lparr>client_is_connected := True\<rparr>) =
   (client_x, [Super_get_services 0, Disconnect 0],
    Inl (Exc BleakError ''failed to discover services''))"
proof -
  let ?c = "client_x\<lparr>client_is_connected := True\<rparr>"
  have h: "\<not> has_service_cache (platform_of params_default) ?c"
    by (simp add: has_service_cache_def client_x_def new_client_def params_default_def)
  have c: "client_id ?c = 0" "?c\<lparr>client_is_connected := False\<rparr> = client_x"
    by (simp_all add: client_x_def new_client_def initial_state_def)
  from get_services_failure [OF h refl, where super_disconnect = None] c h
  show ?thesis by simp
qed

text \<open>
  C6 as stated fails when \<^verbatim>\<open>disconnect\<close> raises inside the handler: the exception that
  reaches the caller is the one of \<^verbatim>\<open>disconnect\<close>, not the original one of
  \<^verbatim>\<open>get_services\<close>.
\<close>

theorem get_services_reraise_counterexample:
  "\<not> has_service_cache (platform_of params_default) (client_x\<lparr>client_is_connected := True\<rparr>) \<and>
   snd (snd (get_services (platform_of params_default)
     (Inl (Exc BleakError ''failed to discover services''))
     (Some (Exc BleakDBusError ''[org.bluez.Error.Failed] Operation already in progress''))
     (client_x\<lparr>client_is_connected := True\<rparr>))) =
   Inl (Exc BleakDBusError ''[org.bluez.Error.Failed] Operation already in progress'') \<and>
   snd (snd (get_services (platform_of params_default)
     (Inl (Exc BleakError ''failed to discover services''))
     (Some (Exc BleakDBusError ''[org.bluez.Error.Failed] Operation already in progress''))
     (client_x\<lparr>client_is_connected := True\<rparr>))) \<noteq>
   Inl (Exc BleakError ''failed to discover services'')"
  by (simp add: get_services_def has_service_cache_def client_x_def new_client_def
      params_default_def)

end
